theory Spec2Isabelle
  imports Complex_Main "HOL-Library.Char_ord" "HOL-Library.List_Lexorder"
begin

section \<open>Data model\<close>

text \<open>
  The program (\<^verbatim>\<open>build_database.py\<close>) is a batch of pandas transformations. A cell
  of a table is a missing value (pandas' \<^verbatim>\<open>NaN\<close>), an integer, a float or a string.
  Strings are byte strings; the case mapping and the integer parser below cover ASCII
  text. Floats are carried as real numbers: the program does no arithmetic on them.
\<close>

datatype val = NaN | IntV int | FloatV real | StrV string

text \<open>The exceptions the modelled statements can raise.\<close>

datatype error = KeyError | ValueError | TypeError | AttributeError | OverflowError | IndexError | RequestError

text \<open>
  A \<^verbatim>\<open>DataFrame\<close>: the row labels (\<open>index\<close>) with their optional name, the column
  names in order, and the rows, each row holding one cell per column.
\<close>

record dataframe =
  index :: "int list"
  index_name :: "string option"
  columns :: "string list"
  data :: "val list list"

definition nrows :: "dataframe \<Rightarrow> nat" where
  "nrows df = length (data df)"

text \<open>Every pandas table is rectangular and has one label per row.\<close>

definition wf :: "dataframe \<Rightarrow> bool" where
  "wf df \<longleftrightarrow> length (index df) = length (data df) \<and>
     list_all (\<lambda>r. length r = length (columns df)) (data df)"

fun index_of :: "'a \<Rightarrow> 'a list \<Rightarrow> nat option" where
  "index_of x [] = None"
| "index_of x (y # ys) = (if x = y then Some 0 else map_option Suc (index_of x ys))"

text \<open>\<^verbatim>\<open>df[c]\<close> as the list of the column's cells; \<open>None\<close> where pandas raises \<^verbatim>\<open>KeyError\<close>.\<close>

definition col :: "dataframe \<Rightarrow> string \<Rightarrow> val list option" where
  "col df c = map_option (\<lambda>i. map (\<lambda>r. r ! i) (data df)) (index_of c (columns df))"

text \<open>Running a fallible function over a list stops at the first exception.\<close>

primrec mapM :: "('a \<Rightarrow> error + 'b) \<Rightarrow> 'a list \<Rightarrow> error + 'b list" where
  "mapM f [] = Inr []"
| "mapM f (x # xs) =
     (case f x of Inl e \<Rightarrow> Inl e
      | Inr y \<Rightarrow> (case mapM f xs of Inl e \<Rightarrow> Inl e | Inr ys \<Rightarrow> Inr (y # ys)))"

primrec foldM :: "('s \<Rightarrow> 'a \<Rightarrow> error + 's) \<Rightarrow> 's \<Rightarrow> 'a list \<Rightarrow> error + 's" where
  "foldM f s [] = Inr s"
| "foldM f s (x # xs) = (case f s x of Inl e \<Rightarrow> Inl e | Inr s' \<Rightarrow> foldM f s' xs)"

definition then_do :: "error + 'a \<Rightarrow> ('a \<Rightarrow> error + 'b) \<Rightarrow> error + 'b" where
  "then_do m f = (case m of Inl e \<Rightarrow> Inl e | Inr x \<Rightarrow> f x)"

section \<open>Python's string operations\<close>

text \<open>\<^verbatim>\<open>x.lower()\<close> on ASCII text: the letters \<open>A..Z\<close> get bit 5 set.\<close>

definition lower_char :: "char \<Rightarrow> char" where
  "lower_char c =
     (if CHR ''A'' \<le> c \<and> c \<le> CHR ''Z''
      then (case c of Char b0 b1 b2 b3 b4 b5 b6 b7 \<Rightarrow> Char b0 b1 b2 b3 b4 True b6 b7)
      else c)"

definition lower :: "string \<Rightarrow> string" where
  "lower s = map lower_char s"

text \<open>
  \<^verbatim>\<open>x.split(sep)\<close> for a one-character separator: the pieces between the separators,
  empty pieces included; the result always has a first element.
\<close>

fun split :: "char \<Rightarrow> string \<Rightarrow> string list" where
  "split sep [] = [[]]"
| "split sep (c # cs) =
     (if c = sep then [] # split sep cs
      else (case split sep cs of t # ts \<Rightarrow> (c # t) # ts | [] \<Rightarrow> [[c]]))"

text \<open>
  \<^verbatim>\<open>x.replace(old, new)\<close>: every occurrence of \<open>old\<close>, found left to right without
  overlap, becomes \<open>new\<close>. (For an empty \<open>old\<close> Python puts \<open>new\<close> around every
  character.)
\<close>

fun replace :: "string \<Rightarrow> string \<Rightarrow> string \<Rightarrow> string" where
  "replace old new [] = (if old = [] then new else [])"
| "replace old new (c # cs) =
     (if old = [] then new @ c # replace old new cs
      else if take (length old) (c # cs) = old
           then new @ replace old new (drop (length old) (c # cs))
           else c # replace old new cs)"

text \<open>
  \<^verbatim>\<open>int(s)\<close> on an ASCII string: surrounding whitespace is skipped, one sign is allowed,
  and the rest is decimal digits, where single underscores may stand between digits.
  \<open>None\<close> is Python's \<^verbatim>\<open>ValueError\<close>. Python's integers are unbounded (the
  interpreter's limit on the length of a decimal literal is not modelled).
\<close>

definition is_space :: "char \<Rightarrow> bool" where
  "is_space c \<longleftrightarrow> c \<in> set [CHR 0x09, CHR 0x0A, CHR 0x0B, CHR 0x0C, CHR 0x0D, CHR '' '']"

definition is_digit :: "char \<Rightarrow> bool" where
  "is_digit c \<longleftrightarrow> CHR ''0'' \<le> c \<and> c \<le> CHR ''9''"

definition digit_val :: "char \<Rightarrow> int" where
  "digit_val c = int (of_char c) - 48"

fun parse_digits :: "int \<Rightarrow> string \<Rightarrow> int option" where
  "parse_digits acc [] = Some acc"
| "parse_digits acc (c # cs) =
     (if is_digit c then parse_digits (10 * acc + digit_val c) cs
      else if c = CHR ''_'' \<and> cs \<noteq> [] \<and> is_digit (hd cs) then parse_digits acc cs
      else None)"

definition parse_literal :: "string \<Rightarrow> int option" where
  "parse_literal s =
     (case s of [] \<Rightarrow> None | c # cs \<Rightarrow> if is_digit c then parse_digits 0 s else None)"

definition strip :: "string \<Rightarrow> string" where
  "strip s = dropWhile is_space (rev (dropWhile is_space (rev s)))"

definition py_int :: "string \<Rightarrow> int option" where
  "py_int s =
     (case strip s of
        [] \<Rightarrow> None
      | c # cs \<Rightarrow>
          if c = CHR ''-'' then map_option uminus (parse_literal cs)
          else if c = CHR ''+'' then parse_literal cs
          else parse_literal (c # cs))"

text \<open>\<^verbatim>\<open>str(n)\<close> for an integer: its decimal digits, after a minus sign when negative.\<close>

definition digit_char :: "nat \<Rightarrow> char" where
  "digit_char d = ''0123456789'' ! d"

function str_of_nat :: "nat \<Rightarrow> string" where
  "str_of_nat n =
     (if n < 10 then [digit_char n] else str_of_nat (n div 10) @ [digit_char (n mod 10)])"
  by pat_completeness auto
termination
  by (relation "measure id") auto

declare str_of_nat.simps [simp del]

definition str_of_int :: "int \<Rightarrow> string" where
  "str_of_int n = (if n < 0 then CHR ''-'' # str_of_nat (nat (- n)) else str_of_nat (nat n))"

section \<open>The Indexer: \<^verbatim>\<open>create_index\<close>\<close>

text \<open>\<^verbatim>\<open>df.reset_index(drop=True)\<close>: the labels become \<open>0..N-1\<close>, the old ones are dropped.\<close>

definition reset_index_drop :: "dataframe \<Rightarrow> dataframe" where
  "reset_index_drop df = df\<lparr>index := map int [0..<nrows df], index_name := None\<rparr>"

text \<open>\<^verbatim>\<open>df.index += k\<close>.\<close>

definition index_add :: "int \<Rightarrow> dataframe \<Rightarrow> dataframe" where
  "index_add k df = df\<lparr>index := map (\<lambda>i. i + k) (index df)\<rparr>"

text \<open>\<^verbatim>\<open>df.index.name = name\<close>.\<close>

definition set_index_name :: "string \<Rightarrow> dataframe \<Rightarrow> dataframe" where
  "set_index_name name df = df\<lparr>index_name := Some name\<rparr>"

text \<open>
  \<^verbatim>\<open>df.reset_index()\<close>: the labels become the first column, named after the index
  (\<^verbatim>\<open>index\<close>, or \<^verbatim>\<open>level_0\<close>, for an unnamed one), and the rows are relabelled
  \<open>0..N-1\<close>. pandas raises \<^verbatim>\<open>ValueError\<close> (cannot insert, already exists) when a
  column of that name is there already.
\<close>

definition reset_index :: "dataframe \<Rightarrow> error + dataframe" where
  "reset_index df =
     (let name = (case index_name df of
                    Some n \<Rightarrow> n
                  | None \<Rightarrow> if ''index'' \<in> set (columns df) then ''level_0'' else ''index'')
      in if name \<in> set (columns df) then Inl ValueError
         else Inr \<lparr>index = map int [0..<nrows df], index_name = None,
                   columns = name # columns df,
                   data = map2 (\<lambda>k r. IntV k # r) (index df) (data df)\<rparr>)"

text \<open>
  The four statements of \<^verbatim>\<open>create_index\<close>, as the change they make to the table
  they are given.
\<close>

definition create_index_value :: "dataframe \<Rightarrow> string \<Rightarrow> error + dataframe" where
  "create_index_value df index_name' =
     reset_index (set_index_name index_name' (index_add 1 (reset_index_drop df)))"

text \<open>
  \<^verbatim>\<open>create_index\<close> itself works on the object it is handed: every statement is an
  in-place update (\<^verbatim>\<open>inplace=True\<close>, \<^verbatim>\<open>+=\<close>, attribute assignment) and the function
  returns that same object. The store maps object references to tables; the result is
  the returned reference, or the exception, and the store the call leaves behind.
\<close>

type_synonym ref = nat
type_synonym store = "ref \<Rightarrow> dataframe"

definition create_index :: "ref \<Rightarrow> string \<Rightarrow> store \<Rightarrow> (error + ref) \<times> store" where
  "create_index df index_name' s =
     (let s1 = s(df := reset_index_drop (s df));
          s2 = s1(df := index_add 1 (s1 df));
          s3 = s2(df := set_index_name index_name' (s2 df))
      in case reset_index (s3 df) of
           Inl e \<Rightarrow> (Inl e, s3)
         | Inr d \<Rightarrow> (Inr df, s3(df := d)))"

section \<open>The pandas operations the program calls\<close>

text \<open>The cell of a row under a column name.\<close>

definition cell :: "string list \<Rightarrow> val list \<Rightarrow> string \<Rightarrow> val option" where
  "cell cols r c = map_option (\<lambda>i. r ! i) (index_of c cols)"

definition is_int :: "val \<Rightarrow> bool" where
  "is_int v = (case v of IntV _ \<Rightarrow> True | _ \<Rightarrow> False)"

definition is_str :: "val \<Rightarrow> bool" where
  "is_str v = (case v of StrV _ \<Rightarrow> True | _ \<Rightarrow> False)"

definition is_num :: "val \<Rightarrow> bool" where
  "is_num v = (case v of IntV _ \<Rightarrow> True | FloatV _ \<Rightarrow> True | _ \<Rightarrow> False)"

definition the_str :: "val \<Rightarrow> string" where
  "the_str v = (case v of StrV s \<Rightarrow> s | _ \<Rightarrow> [])"

definition the_num :: "val \<Rightarrow> real" where
  "the_num v = (case v of IntV i \<Rightarrow> of_int i | FloatV x \<Rightarrow> x | _ \<Rightarrow> 0)"

text \<open>
  \<^verbatim>\<open>df[c] = df[c].apply(f)\<close> (and \<^verbatim>\<open>df[c] = df[c].astype(t)\<close>): \<open>f\<close> runs over the
  cells of column \<open>c\<close> in row order, and the results replace the column where it stands.
  Reading a column that is not there raises \<^verbatim>\<open>KeyError\<close>.
\<close>

definition apply_col :: "string \<Rightarrow> (val \<Rightarrow> error + val) \<Rightarrow> dataframe \<Rightarrow> error + dataframe" where
  "apply_col c f df =
     (case index_of c (columns df) of
        None \<Rightarrow> Inl KeyError
      | Some i \<Rightarrow>
          then_do (mapM (\<lambda>r. f (r ! i)) (data df))
            (\<lambda>vs. Inr (df\<lparr>data := map2 (\<lambda>r v. r[i := v]) (data df) vs\<rparr>)))"

text \<open>\<^verbatim>\<open>df.applymap(f)\<close>: \<open>f\<close> on every cell.\<close>

definition applymap :: "(val \<Rightarrow> error + val) \<Rightarrow> dataframe \<Rightarrow> error + dataframe" where
  "applymap f df = then_do (mapM (mapM f) (data df)) (\<lambda>rows. Inr (df\<lparr>data := rows\<rparr>))"

text \<open>\<^verbatim>\<open>df[cols]\<close> for a list of names: those columns in that order, or \<^verbatim>\<open>KeyError\<close>.\<close>

definition project :: "string list \<Rightarrow> dataframe \<Rightarrow> error + dataframe" where
  "project cols df =
     then_do (mapM (\<lambda>c. case index_of c (columns df) of None \<Rightarrow> Inl KeyError | Some i \<Rightarrow> Inr i) cols)
       (\<lambda>is. Inr (df\<lparr>columns := cols, data := map (\<lambda>r. map (\<lambda>i. r ! i) is) (data df)\<rparr>))"

text \<open>\<^verbatim>\<open>df.columns = names\<close>: \<^verbatim>\<open>ValueError\<close> on a length mismatch.\<close>

definition set_columns :: "string list \<Rightarrow> dataframe \<Rightarrow> error + dataframe" where
  "set_columns names df =
     (if length names = length (columns df) then Inr (df\<lparr>columns := names\<rparr>) else Inl ValueError)"

text \<open>\<^verbatim>\<open>df.rename(columns={old: new})\<close>.\<close>

definition rename :: "string \<Rightarrow> string \<Rightarrow> dataframe \<Rightarrow> dataframe" where
  "rename old new df = df\<lparr>columns := map (\<lambda>c. if c = old then new else c) (columns df)\<rparr>"

text \<open>
  \<^verbatim>\<open>df.drop_duplicates()\<close>: of the rows with equal cells the first stays, with its label.
\<close>

primrec keep_first_by :: "('a \<Rightarrow> 'k) \<Rightarrow> 'k list \<Rightarrow> 'a list \<Rightarrow> 'a list" where
  "keep_first_by key seen [] = []"
| "keep_first_by key seen (x # xs) =
     (if key x \<in> set seen then keep_first_by key seen xs
      else x # keep_first_by key (key x # seen) xs)"

definition with_rows :: "dataframe \<Rightarrow> (int \<times> val list) list \<Rightarrow> dataframe" where
  "with_rows df rows = df\<lparr>index := map fst rows, data := map snd rows\<rparr>"

definition drop_duplicates :: "dataframe \<Rightarrow> dataframe" where
  "drop_duplicates df = with_rows df (keep_first_by snd [] (zip (index df) (data df)))"

text \<open>
  \<^verbatim>\<open>df.sort_values(by=c)\<close>: the rows in ascending order of column \<open>c\<close>, the rows with a
  missing value last. Strings compare lexicographically by character code, numbers by
  value; a column that mixes strings and numbers raises \<^verbatim>\<open>TypeError\<close>. (The order
  pandas gives to rows with equal keys is not fixed; here they keep their order. The
  program sorts a column without duplicates.)
\<close>

definition sort_values :: "string \<Rightarrow> dataframe \<Rightarrow> error + dataframe" where
  "sort_values by_col df =
     (case index_of by_col (columns df) of
        None \<Rightarrow> Inl KeyError
      | Some i \<Rightarrow>
          let rows = zip (index df) (data df);
              present = filter (\<lambda>(l, r). r ! i \<noteq> NaN) rows;
              missing = filter (\<lambda>(l, r). r ! i = NaN) rows
          in if list_all (\<lambda>(l, r). is_str (r ! i)) present
             then Inr (with_rows df (sort_key (\<lambda>(l, r). the_str (r ! i)) present @ missing))
             else if list_all (\<lambda>(l, r). is_num (r ! i)) present
             then Inr (with_rows df (sort_key (\<lambda>(l, r). the_num (r ! i)) present @ missing))
             else Inl TypeError)"

text \<open>
  An integer column cannot hold a missing value: when one is filled in, pandas turns
  the column into a float column.
\<close>

definition promote_val :: "val \<Rightarrow> val" where
  "promote_val v = (case v of IntV i \<Rightarrow> FloatV (of_int i) | _ \<Rightarrow> v)"

definition promote_where :: "(nat \<Rightarrow> bool) \<Rightarrow> val list \<Rightarrow> val list" where
  "promote_where float_col r =
     map (\<lambda>(j, v). if float_col j then promote_val v else v) (enumerate 0 r)"

text \<open>
  \<^verbatim>\<open>left.merge(right, left_on=a, right_on=b, how="left")\<close>. Every left row stays, in
  order: once for each right row with an equal key (in the right table's order), and
  once with missing values in the right table's columns when no right row matches.
  When both keys have one name the result has that column once. A name that both
  tables have among their other columns gets the suffixes \<^verbatim>\<open>_x\<close> and \<^verbatim>\<open>_y\<close>. A missing
  key column raises \<^verbatim>\<open>KeyError\<close>. The join keys of the program are columns of strings;
  pandas' refusal to join a string column with a numeric one is outside this model.
\<close>

definition drop_key :: "bool \<Rightarrow> nat \<Rightarrow> 'a list \<Rightarrow> 'a list" where
  "drop_key same j xs = (if same then take j xs @ drop (Suc j) xs else xs)"

definition add_suffix :: "string \<Rightarrow> string list \<Rightarrow> string list \<Rightarrow> string list" where
  "add_suffix sfx others cols = map (\<lambda>c. if c \<in> set others then c @ sfx else c) cols"

text \<open>
  The right table as the join reads it: each row's key with the cells the result
  keeps of it. When some left row has no match, the integer columns among them become
  float columns.
\<close>

definition right_part :: "bool \<Rightarrow> nat \<Rightarrow> bool \<Rightarrow> val list list \<Rightarrow> (val \<times> val list) list" where
  "right_part same j unmatched rows =
     (let kept = map (drop_key same j) rows;
          int_col = (\<lambda>c. list_all (\<lambda>r. is_int (r ! c)) kept)
      in zip (map (\<lambda>r. r ! j) rows)
             (if unmatched then map (promote_where int_col) kept else kept))"

text \<open>The result rows of one left row \<open>l\<close>, whose key is its cell \<open>i\<close>.\<close>

definition join_row :: "nat \<Rightarrow> (val \<times> val list) list \<Rightarrow> nat \<Rightarrow> val list \<Rightarrow> val list list" where
  "join_row i rrows width l =
     (case filter (\<lambda>m. fst m = l ! i) rrows of
        [] \<Rightarrow> [l @ replicate width NaN]
      | m # ms \<Rightarrow> map (\<lambda>m. l @ snd m) (m # ms))"

definition merge_left :: "dataframe \<Rightarrow> dataframe \<Rightarrow> string \<Rightarrow> string \<Rightarrow> error + dataframe" where
  "merge_left left right left_on right_on =
     (case index_of left_on (columns left) of
        None \<Rightarrow> Inl KeyError
      | Some i \<Rightarrow>
     (case index_of right_on (columns right) of
        None \<Rightarrow> Inl KeyError
      | Some j \<Rightarrow>
          let same = (left_on = right_on);
              rcols = drop_key same j (columns right);
              unmatched = list_ex (\<lambda>l. l ! i \<notin> set (map (\<lambda>r. r ! j) (data right))) (data left);
              rrows = right_part same j unmatched (data right);
              rows = concat (map (join_row i rrows (length rcols)) (data left))
          in Inr \<lparr>index = map int [0..<length rows], index_name = None,
                  columns = add_suffix ''_x'' rcols (columns left)
                            @ add_suffix ''_y'' (columns left) rcols,
                  data = rows\<rparr>))"

text \<open>
  \<^verbatim>\<open>pd.concat(dfs)\<close>: the rows of the tables one after the other, with their labels,
  under the union of the column names in order of first appearance; a table without
  a column has missing values there. An empty list of tables raises \<^verbatim>\<open>ValueError\<close>
  (no objects to concatenate). A numeric column that ends up with a float or a missing
  value in it is a float column.
\<close>

definition keep_first :: "'a list \<Rightarrow> 'a list" where
  "keep_first xs = rev (remdups (rev xs))"

definition reindex_row :: "string list \<Rightarrow> string list \<Rightarrow> val list \<Rightarrow> val list" where
  "reindex_row cols new_cols r =
     map (\<lambda>c. case index_of c cols of None \<Rightarrow> NaN | Some i \<Rightarrow> r ! i) new_cols"

definition pd_concat :: "dataframe list \<Rightarrow> error + dataframe" where
  "pd_concat dfs =
     (if dfs = [] then Inl ValueError
      else let cols = keep_first (concat (map columns dfs));
               rows = concat (map (\<lambda>df. map (reindex_row (columns df) cols) (data df)) dfs);
               float_col = (\<lambda>c. list_all (\<lambda>r. is_num (r ! c) \<or> r ! c = NaN) rows \<and>
                                 \<not> list_all (\<lambda>r. is_int (r ! c)) rows)
           in Inr \<lparr>index = concat (map index dfs),
                   index_name = (if list_all (\<lambda>df. index_name df = index_name (hd dfs)) dfs
                                 then index_name (hd dfs) else None),
                   columns = cols,
                   data = map (promote_where float_col) rows\<rparr>)"

text \<open>\<^verbatim>\<open>pd.DataFrame(data=rows, columns=names)\<close>: rows labelled \<open>0..N-1\<close>.\<close>

definition DataFrame :: "val list list \<Rightarrow> string list \<Rightarrow> dataframe" where
  "DataFrame rows names =
     \<lparr>index = map int [0..<length rows], index_name = None, columns = names, data = rows\<rparr>"

section \<open>The Catalog Fetcher and the drinks table\<close>

text \<open>
  The catalog service is a parameter: for a URL it gives the \<^verbatim>\<open>drinks\<close> field of the
  JSON body (\<open>None\<close> for \<^verbatim>\<open>null\<close>, else the list of drink objects), or the exception
  of a failed request. A drink object is a list of fields; its values are strings,
  numbers or \<^verbatim>\<open>null\<close>.
\<close>

datatype json = JNull | JString string | JNumber int

type_synonym drink_entry = "(string \<times> json) list"
type_synonym catalog = "string \<Rightarrow> error + drink_entry list option"

text \<open>
  \<^verbatim>\<open>pd.json_normalize(objects)\<close>: one row per object, one column per field name in
  order of first appearance, a missing value where an object lacks the field or has
  \<^verbatim>\<open>null\<close> there.
\<close>

definition val_of_json :: "json \<Rightarrow> val" where
  "val_of_json j = (case j of JNull \<Rightarrow> NaN | JString s \<Rightarrow> StrV s | JNumber n \<Rightarrow> IntV n)"

definition json_normalize :: "drink_entry list \<Rightarrow> dataframe" where
  "json_normalize entries =
     (let cols = keep_first (concat (map (map fst) entries))
      in DataFrame
           (map (\<lambda>e. map (\<lambda>c. case map_of e c of None \<Rightarrow> NaN | Some v \<Rightarrow> val_of_json v) cols) entries)
           cols)"

text \<open>\<^verbatim>\<open>lambda x: x.lower()\<close>: only a string has the method.\<close>

definition str_lower :: "val \<Rightarrow> error + val" where
  "str_lower x = (case x of StrV s \<Rightarrow> Inr (StrV (lower s)) | _ \<Rightarrow> Inl AttributeError)"

definition get_drinks_data :: "catalog \<Rightarrow> string \<Rightarrow> error + dataframe option" where
  "get_drinks_data api url =
     (case api url of
        Inl e \<Rightarrow> Inl e
      | Inr None \<Rightarrow> Inr None
      | Inr (Some drinks) \<Rightarrow>
          then_do (project [''idDrink'', ''strDrink'', ''strGlass''] (json_normalize drinks))
            (\<lambda>df. then_do (applymap str_lower df)
              (\<lambda>df. then_do (set_columns [''cocktail_db_id'', ''drink_name'', ''glass_name''] df)
                (\<lambda>df. Inr (Some df)))))"

text \<open>
  The loop of \<^verbatim>\<open>build_drinks_dataframe\<close> over \<^verbatim>\<open>string.ascii_lowercase\<close>, with the
  list \<^verbatim>\<open>df_list\<close> it appends to.
\<close>

definition ascii_lowercase :: string where
  "ascii_lowercase = ''abcdefghijklmnopqrstuvwxyz''"

definition search_url :: "char \<Rightarrow> string" where
  "search_url letter = ''https://www.thecocktaildb.com/api/json/v1/1/search.php?f='' @ [letter]"

fun letters_loop :: "catalog \<Rightarrow> string \<Rightarrow> dataframe list \<Rightarrow> error + dataframe list" where
  "letters_loop api [] df_list = Inr df_list"
| "letters_loop api (letter # rest) df_list =
     (case get_drinks_data api (search_url letter) of
        Inl e \<Rightarrow> Inl e
      | Inr None \<Rightarrow> letters_loop api rest df_list
      | Inr (Some df) \<Rightarrow> letters_loop api rest (df_list @ [df]))"

definition build_drinks_dataframe :: "catalog \<Rightarrow> error + dataframe" where
  "build_drinks_dataframe api =
     then_do (letters_loop api ascii_lowercase [])
       (\<lambda>df_list. then_do (pd_concat df_list)
         (\<lambda>df_drinks. create_index_value df_drinks ''drink_id''))"

text \<open>The glasses table: \<^verbatim>\<open>build_glasses_dataframe\<close>.\<close>

definition build_glasses_dataframe :: "dataframe \<Rightarrow> error + dataframe" where
  "build_glasses_dataframe df_drinks =
     then_do (project [''glass_name''] df_drinks)
       (\<lambda>df_glasses. then_do (sort_values ''glass_name'' (drop_duplicates df_glasses))
         (\<lambda>df_glasses. create_index_value df_glasses ''glass_id''))"

text \<open>The bars table is static.\<close>

definition build_bars_dataframe :: dataframe where
  "build_bars_dataframe =
     DataFrame [[IntV 1, StrV ''budapest''], [IntV 2, StrV ''new york''], [IntV 3, StrV ''london'']]
       [''bar_id'', ''location'']"

section \<open>Fact builders\<close>

text \<open>
  \<^verbatim>\<open>lambda x: int(x.split(" ")[0])\<close> and
  \<^verbatim>\<open>lambda x: x.replace("coper mug", "copper mug")\<close>: both need a string.
\<close>

definition parse_stock :: "val \<Rightarrow> error + val" where
  "parse_stock x =
     (case x of
        StrV s \<Rightarrow>
          (case split CHR '' '' s of
             [] \<Rightarrow> Inl IndexError
           | t # _ \<Rightarrow> (case py_int t of None \<Rightarrow> Inl ValueError | Some n \<Rightarrow> Inr (IntV n)))
      | _ \<Rightarrow> Inl AttributeError)"

definition fix_glass_type :: "val \<Rightarrow> error + val" where
  "fix_glass_type x =
     (case x of StrV s \<Rightarrow> Inr (StrV (replace ''coper mug'' ''copper mug'' s))
      | _ \<Rightarrow> Inl AttributeError)"

text \<open>
  \<^verbatim>\<open>build_inventory_dataframe\<close>; \<open>raw_csv\<close> is the table \<^verbatim>\<open>pd.read_csv\<close> returns.
\<close>

definition build_inventory_dataframe :: "dataframe \<Rightarrow> dataframe \<Rightarrow> dataframe \<Rightarrow> error + dataframe" where
  "build_inventory_dataframe raw_csv df_bars df_glasses =
     then_do (apply_col ''stock'' parse_stock raw_csv)
       (\<lambda>df. then_do (apply_col ''glass_type'' fix_glass_type df)
         (\<lambda>df. then_do (merge_left df df_bars ''bar'' ''location'')
           (\<lambda>df. then_do (merge_left df df_glasses ''glass_type'' ''glass_name'')
             (\<lambda>df. create_index_value (rename ''stock'' ''number_in_stock'' df) ''inventory_id''))))"

text \<open>
  \<^verbatim>\<open>build_orders_dataframe\<close>; the tables \<^verbatim>\<open>df_drinks\<close> and \<^verbatim>\<open>df_bars\<close>, which the
  function reads from the module's globals, are its first two arguments here.
\<close>

definition build_orders_dataframe ::
    "dataframe \<Rightarrow> dataframe \<Rightarrow> dataframe \<Rightarrow> dataframe \<Rightarrow> dataframe \<Rightarrow> error + dataframe" where
  "build_orders_dataframe df_drinks df_bars df_budapest df_london df_ny =
     then_do (pd_concat [df_budapest, df_london, df_ny])
       (\<lambda>df_orders. then_do (merge_left df_orders df_drinks ''drink_name'' ''drink_name'')
         (\<lambda>df_orders. then_do (merge_left df_orders df_bars ''location'' ''location'')
           (\<lambda>df_orders. create_index_value df_orders ''order_id'')))"


section \<open>The Schema Enforcer: \<^verbatim>\<open>clean_dataframe\<close>\<close>

text \<open>
  The declared types of the data maps are Python's \<^verbatim>\<open>int\<close>, \<^verbatim>\<open>str\<close> and \<^verbatim>\<open>float\<close>. A data
  map is a dictionary, so its column names are distinct; it is kept as the list of its
  items in order.
\<close>

datatype dtype = PyInt | PyStr | PyFloat

record data_map =
  data_types :: "(string \<times> dtype) list"
  index_column :: string

text \<open>
  The text form of floats is a parameter of the model: \<^verbatim>\<open>float(s)\<close>, which raises
  \<^verbatim>\<open>ValueError\<close> (\<open>None\<close>) or gives a float, either not-a-number (\<open>Some None\<close>) or
  a number, and \<^verbatim>\<open>str(x)\<close>.
\<close>

record float_text =
  float_of_str :: "string \<Rightarrow> real option option"
  str_of_float :: "real \<Rightarrow> string"

text \<open>
  \<^verbatim>\<open>astype\<close> on one cell. A pandas integer is 64 bits wide: a Python integer out of
  that range raises \<^verbatim>\<open>OverflowError\<close>. A float is cut towards zero (out of range,
  numpy gives the smallest integer); a missing value has no integer
  (\<^verbatim>\<open>ValueError\<close>).
\<close>

definition int64 :: "int \<Rightarrow> error + val" where
  "int64 n = (if - (2 ^ 63) \<le> n \<and> n < 2 ^ 63 then Inr (IntV n) else Inl OverflowError)"

definition truncate :: "real \<Rightarrow> int" where
  "truncate x = (if 0 \<le> x then \<lfloor>x\<rfloor> else \<lceil>x\<rceil>)"

fun astype_val :: "float_text \<Rightarrow> dtype \<Rightarrow> val \<Rightarrow> error + val" where
  "astype_val fl PyInt (IntV n) = int64 n"
| "astype_val fl PyInt (FloatV x) =
     (if - (2 ^ 63) \<le> truncate x \<and> truncate x < 2 ^ 63 then Inr (IntV (truncate x))
      else Inr (IntV (- (2 ^ 63))))"
| "astype_val fl PyInt NaN = Inl ValueError"
| "astype_val fl PyInt (StrV s) = (case py_int s of None \<Rightarrow> Inl ValueError | Some n \<Rightarrow> int64 n)"
| "astype_val fl PyFloat (IntV n) = Inr (FloatV (of_int n))"
| "astype_val fl PyFloat (FloatV x) = Inr (FloatV x)"
| "astype_val fl PyFloat NaN = Inr NaN"
| "astype_val fl PyFloat (StrV s) =
     (case float_of_str fl s of
        None \<Rightarrow> Inl ValueError
      | Some None \<Rightarrow> Inr NaN
      | Some (Some x) \<Rightarrow> Inr (FloatV x))"
| "astype_val fl PyStr (IntV n) = Inr (StrV (str_of_int n))"
| "astype_val fl PyStr (FloatV x) = Inr (StrV (str_of_float fl x))"
| "astype_val fl PyStr NaN = Inr (StrV ''nan'')"
| "astype_val fl PyStr (StrV s) = Inr (StrV s)"

text \<open>
  \<^verbatim>\<open>clean_dataframe\<close>: the projection \<^verbatim>\<open>df.copy()[columns]\<close>, then the loop over the
  declared columns.
\<close>

definition clean_dataframe :: "float_text \<Rightarrow> dataframe \<Rightarrow> data_map \<Rightarrow> error + dataframe" where
  "clean_dataframe fl df data_map' =
     (let columns' = map fst (data_types data_map')
      in then_do (project columns' df)
           (\<lambda>df. foldM (\<lambda>df column.
                            case map_of (data_types data_map') column of
                              None \<Rightarrow> Inl KeyError
                            | Some datatype \<Rightarrow> apply_col column (astype_val fl datatype) df)
                         df columns'))"

text \<open>The data maps of the five tables.\<close>

definition DRINKS_MAP :: data_map where
  "DRINKS_MAP =
     \<lparr>data_types = [(''drink_id'', PyInt), (''drink_name'', PyStr), (''glass_id'', PyInt),
                    (''cocktail_db_id'', PyInt)],
      index_column = ''drink_id''\<rparr>"

definition GLASSES_MAP :: data_map where
  "GLASSES_MAP =
     \<lparr>data_types = [(''glass_id'', PyInt), (''glass_name'', PyStr)], index_column = ''glass_id''\<rparr>"

definition BARS_MAP :: data_map where
  "BARS_MAP =
     \<lparr>data_types = [(''bar_id'', PyInt), (''location'', PyStr)], index_column = ''bar_id''\<rparr>"

definition INVENTORY_MAP :: data_map where
  "INVENTORY_MAP =
     \<lparr>data_types = [(''inventory_id'', PyInt), (''glass_id'', PyInt), (''number_in_stock'', PyInt),
                    (''bar_id'', PyInt)],
      index_column = ''inventory_id''\<rparr>"

definition ORDERS_MAP :: data_map where
  "ORDERS_MAP =
     \<lparr>data_types = [(''order_id'', PyInt), (''order_datetime'', PyStr), (''drink_id'', PyInt),
                    (''bar_id'', PyInt), (''order_amount'', PyFloat)],
      index_column = ''order_id''\<rparr>"

section \<open>Notions used in the statements\<close>

text \<open>The tables that one letter adds to \<^verbatim>\<open>df_list\<close>: one, or none.\<close>

definition letter_tables :: "catalog \<Rightarrow> char \<Rightarrow> dataframe list" where
  "letter_tables api letter =
     (case get_drinks_data api (search_url letter) of Inr (Some df) \<Rightarrow> [df] | _ \<Rightarrow> [])"

definition drinks_columns :: "string list" where
  "drinks_columns = [''cocktail_db_id'', ''drink_name'', ''glass_name'']"

text \<open>
  The tables the orders builder works on. A cleaned order set is what
  \<^verbatim>\<open>clean_raw_orders\<close> returns: the formatted time, the lowercased drink name, the
  amount as a float and the location tag. The drinks table is the one the drinks
  builder returns, the bars table has the columns of the static one; the names they
  are joined on are strings.
\<close>

definition orders_columns :: "string list" where
  "orders_columns = [''order_datetime'', ''drink_name'', ''order_amount'', ''location'']"

definition is_float :: "val \<Rightarrow> bool" where
  "is_float v = (case v of FloatV _ \<Rightarrow> True | NaN \<Rightarrow> True | _ \<Rightarrow> False)"

definition cleaned_orders :: "dataframe \<Rightarrow> bool" where
  "cleaned_orders df \<longleftrightarrow>
     wf df \<and> columns df = orders_columns \<and>
     list_all (\<lambda>r. is_str (r ! 0) \<and> is_str (r ! 1) \<and> is_float (r ! 2) \<and> is_str (r ! 3)) (data df)"

definition drinks_table :: "dataframe \<Rightarrow> bool" where
  "drinks_table df \<longleftrightarrow>
     wf df \<and> columns df = ''drink_id'' # drinks_columns \<and> list_all (\<lambda>r. is_str (r ! 2)) (data df)"

definition bars_table :: "dataframe \<Rightarrow> bool" where
  "bars_table df \<longleftrightarrow>
     wf df \<and> columns df = [''bar_id'', ''location''] \<and> list_all (\<lambda>r. is_str (r ! 1)) (data df)"

definition glasses_table :: "dataframe \<Rightarrow> bool" where
  "glasses_table df \<longleftrightarrow>
     wf df \<and> columns df = [''glass_id'', ''glass_name''] \<and> list_all (\<lambda>r. is_str (r ! 1)) (data df)"

text \<open>
  The inventory file as \<^verbatim>\<open>pd.read_csv\<close> returns it: it has the columns the builder
  reads (\<^verbatim>\<open>glass_type\<close>, \<^verbatim>\<open>stock\<close>, \<^verbatim>\<open>bar\<close>), each name once, and none of the names the
  builder adds.
\<close>

definition inventory_csv :: "dataframe \<Rightarrow> bool" where
  "inventory_csv df \<longleftrightarrow>
     wf df \<and> distinct (columns df) \<and>
     set [''glass_type'', ''stock'', ''bar''] \<subseteq> set (columns df) \<and>
     set (columns df) \<inter> set [''bar_id'', ''location'', ''glass_id'', ''glass_name'', ''inventory_id''] = {}"

text \<open>
  A cell of a declared type, and the exceptions a failed conversion raises.
\<close>

definition has_dtype :: "dtype \<Rightarrow> val \<Rightarrow> bool" where
  "has_dtype t v = (case t of PyInt \<Rightarrow> is_int v | PyStr \<Rightarrow> is_str v | PyFloat \<Rightarrow> is_float v)"

definition coercion_error :: "error \<Rightarrow> bool" where
  "coercion_error e \<longleftrightarrow> e = ValueError \<or> e = TypeError \<or> e = OverflowError"

text \<open>Every declared column is a column of the table.\<close>

definition has_columns :: "dataframe \<Rightarrow> data_map \<Rightarrow> bool" where
  "has_columns df m \<longleftrightarrow> list_all (\<lambda>c. c \<in> set (columns df)) (map fst (data_types m))"

section \<open>Examples\<close>

definition example_glasses :: dataframe where
  "example_glasses =
     \<lparr>index = [4, 0], index_name = None, columns = [''glass_name''],
      data = [[StrV ''copper mug''], [StrV ''highball glass'']]\<rparr>"

definition example_store :: store where
  "example_store = (\<lambda>_. example_glasses)"

definition empty_catalog :: catalog where
  "empty_catalog = (\<lambda>url. Inr None)"

definition example_catalog :: catalog where
  "example_catalog url =
     (if url = search_url CHR ''a'' then
        Inr (Some [[(''idDrink'', JString ''17222''), (''strDrink'', JString ''A1''),
                    (''strGlass'', JString ''Cocktail glass'')]])
      else if url = search_url CHR ''m'' then
        Inr (Some [[(''idDrink'', JString ''11000''), (''strDrink'', JString ''Mojito''),
                    (''strTags'', JNull), (''strGlass'', JString ''Highball glass'')],
                   [(''idDrink'', JString ''11009''), (''strDrink'', JString ''Moscow Mule''),
                    (''strGlass'', JString ''Copper Mug'')],
                   [(''idDrink'', JString ''11690''), (''strDrink'', JString ''Mai Tai''),
                    (''strGlass'', JString ''Highball Glass'')]])
      else Inr None)"

definition example_drinks :: dataframe where
  "example_drinks =
     \<lparr>index = [0, 1, 2, 3], index_name = None,
      columns = [''drink_id'', ''cocktail_db_id'', ''drink_name'', ''glass_name''],
      data = [[IntV 1, StrV ''17222'', StrV ''a1'', StrV ''cocktail glass''],
              [IntV 2, StrV ''11000'', StrV ''mojito'', StrV ''highball glass''],
              [IntV 3, StrV ''11009'', StrV ''moscow mule'', StrV ''copper mug''],
              [IntV 4, StrV ''11690'', StrV ''mai tai'', StrV ''highball glass'']]\<rparr>"

definition example_orders :: dataframe where
  "example_orders =
     DataFrame [[StrV ''2022-03-01 18:05:00'', StrV ''mojito'', FloatV 2, StrV ''london''],
                [StrV ''2022-03-01 18:20:00'', StrV ''negroni'', FloatV (19 / 2), StrV ''london'']]
       orders_columns"

definition no_orders :: dataframe where
  "no_orders = DataFrame [] orders_columns"

definition one_order :: dataframe where
  "one_order =
     DataFrame [[StrV ''2022-03-01 18:05:00'', StrV ''mojito'', FloatV 2, StrV ''london'']]
       orders_columns"

definition twin_drinks :: dataframe where
  "twin_drinks =
     DataFrame [[IntV 1, StrV ''11000'', StrV ''mojito'', StrV ''highball glass''],
                [IntV 2, StrV ''178336'', StrV ''mojito'', StrV ''collins glass'']]
       (''drink_id'' # drinks_columns)"

definition example_csv :: dataframe where
  "example_csv =
     DataFrame [[StrV ''coper mug'', StrV ''12 bottles'', StrV ''london''],
                [StrV ''highball glass'', StrV ''3 glasses'', StrV ''paris'']]
       [''glass_type'', ''stock'', ''bar'']"

definition example_glass_table :: dataframe where
  "example_glass_table =
     DataFrame [[IntV 1, StrV ''cocktail glass''], [IntV 2, StrV ''copper mug''],
                [IntV 3, StrV ''highball glass'']]
       [''glass_id'', ''glass_name'']"

definition example_inventory :: dataframe where
  "example_inventory =
     DataFrame [[IntV 1, StrV ''copper mug'', IntV 12, StrV ''london'', FloatV 3, StrV ''london'',
                 IntV 2, StrV ''copper mug''],
                [IntV 2, StrV ''highball glass'', IntV 3, StrV ''paris'', NaN, NaN,
                 IntV 3, StrV ''highball glass'']]
       [''inventory_id'', ''glass_type'', ''number_in_stock'', ''bar'', ''bar_id'', ''location'',
        ''glass_id'', ''glass_name'']"

definition example_float_text :: float_text where
  "example_float_text =
     \<lparr>float_of_str = (\<lambda>s. map_option (\<lambda>n. Some (of_int n)) (py_int s)),
      str_of_float = (\<lambda>x. str_of_int (truncate x) @ ''.0'')\<rparr>"

definition example_clean_glasses :: dataframe where
  "example_clean_glasses =
     DataFrame [[IntV 1, StrV ''cocktail glass''], [IntV 2, StrV ''copper mug''],
                [IntV 3, StrV ''highball glass'']]
       [''glass_id'', ''glass_name'']"

section \<open>Properties of the Indexer\<close>

lemma map_Suc_upt_int: "map (\<lambda>i. i + 1) (map int [0..<n]) = [1..int n]"
proof (induction n)
  case 0
  show ?case by simp
next
  case (Suc n)
  have "[1..int (Suc n)] = [1..int n] @ [int n + 1]"
    using upto_rec2 [of 1 "int n + 1"] by (simp add: add.commute)
  with Suc show ?case by simp
qed

lemma map_Suc_comp_upt_int: "map ((\<lambda>i. i + 1) \<circ> int) [0..<n] = [1..int n]"
  using map_Suc_upt_int [of n] by simp

lemma map2_Cons_hd:
  "length ks = length rs \<Longrightarrow> map (\<lambda>r. r ! 0) (map2 (\<lambda>k r. IntV k # r) ks rs) = map IntV ks"
  by (induction ks rs rule: list_induct2) simp_all

lemma map2_Cons_tl:
  "length ks = length rs \<Longrightarrow> map tl (map2 (\<lambda>k r. IntV k # r) ks rs) = rs"
  by (induction ks rs rule: list_induct2) simp_all

lemma map2_Cons_tl_comp:
  "length ks = length rs \<Longrightarrow> map (tl \<circ> (\<lambda>(k, r). IntV k # r)) (zip ks rs) = rs"
  using map2_Cons_tl [of ks rs] by simp

lemma create_index_value_Inr:
  "create_index_value df name = Inr df' \<longleftrightarrow>
     name \<notin> set (columns df) \<and>
     df' = \<lparr>index = map int [0..<nrows df], index_name = None, columns = name # columns df,
            data = map2 (\<lambda>k r. IntV k # r) [1..int (nrows df)] (data df)\<rparr>"
  by (auto simp: create_index_value_def reset_index_def set_index_name_def index_add_def
      reset_index_drop_def nrows_def map_Suc_comp_upt_int Let_def)

lemma create_index_value_Inl:
  "create_index_value df name = Inl e \<longleftrightarrow> name \<in> set (columns df) \<and> e = ValueError"
  by (auto simp: create_index_value_def reset_index_def set_index_name_def index_add_def
      reset_index_drop_def Let_def)

lemma create_index_value_col:
  assumes "create_index_value df name = Inr df'"
  shows "col df' name = Some (map IntV [1..int (nrows df)])"
proof -
  have "length [1..int (nrows df)] = length (data df)"
    by (simp add: nrows_def)
  then have "map (\<lambda>r. r ! 0) (map2 (\<lambda>k r. IntV k # r) [1..int (nrows df)] (data df))
      = map IntV [1..int (nrows df)]"
    by (rule map2_Cons_hd)
  with assms show ?thesis
    by (simp add: create_index_value_Inr col_def)
qed

lemma create_index_value_data:
  assumes "create_index_value df name = Inr df'"
  shows "map tl (data df') = data df" and "nrows df' = nrows df"
    and "columns df' = name # columns df"
proof -
  have len: "length [1..int (nrows df)] = length (data df)"
    by (simp add: nrows_def)
  from assms show "map tl (data df') = data df"
    by (simp add: create_index_value_Inr map2_Cons_tl_comp [OF len])
  from assms len show "nrows df' = nrows df"
    by (simp add: create_index_value_Inr nrows_def)
  from assms show "columns df' = name # columns df"
    by (simp add: create_index_value_Inr)
qed

lemma create_index_value_wf:
  assumes "create_index_value df name = Inr df'" and "wf df"
  shows "wf df'"
proof -
  have len: "length [1..int (nrows df)] = length (data df)"
    by (simp add: nrows_def)
  have "list_all (\<lambda>r. length r = Suc (length (columns df)))
      (map2 (\<lambda>k r. IntV k # r) ks (data df))" for ks
    using \<open>wf df\<close> by (auto simp: wf_def list_all_iff dest: set_zip_rightD)
  with assms len show ?thesis
    by (simp add: create_index_value_Inr wf_def nrows_def)
qed

lemma col_build_bars: "col build_bars_dataframe ''bar_id'' = Some [IntV 1, IntV 2, IntV 3]"
  by (simp add: build_bars_dataframe_def DataFrame_def col_def)

text \<open>
  C3. For a table of \<open>N\<close> rows (\<open>N \<ge> 0\<close>) the Indexer returns whenever the key name is
  not yet a column of the table, and whenever it returns, the key column of its
  output holds exactly \<open>1, 2, ..., N\<close> in row order, in front of the unchanged rows.
  The static bars table has the \<^verbatim>\<open>bar_id\<close> column \<open>1, 2, 3\<close>.
\<close>

theorem create_index_keys:
  "(name \<notin> set (columns df) \<longrightarrow> (\<exists>df'. create_index_value df name = Inr df')) \<and>
   (\<forall>df'. create_index_value df name = Inr df' \<longrightarrow>
      col df' name = Some (map IntV [1..int (nrows df)]) \<and>
      nrows df' = nrows df \<and> map tl (data df') = data df) \<and>
   (\<forall>r df' s'. create_index r name s = (Inr df', s') \<longrightarrow>
      col (s' df') name = Some (map IntV [1..int (nrows (s r))])) \<and>
   col build_bars_dataframe ''bar_id'' = Some [IntV 1, IntV 2, IntV 3]"
proof (intro conjI allI impI)
  assume "name \<notin> set (columns df)"
  then show "\<exists>df'. create_index_value df name = Inr df'"
    by (simp add: create_index_value_Inr)
next
  fix df' assume h: "create_index_value df name = Inr df'"
  show "col df' name = Some (map IntV [1..int (nrows df)])"
    by (rule create_index_value_col [OF h])
  show "nrows df' = nrows df"
    by (rule create_index_value_data(2) [OF h])
  show "map tl (data df') = data df"
    by (rule create_index_value_data(1) [OF h])
next
  fix r df' s' assume h: "create_index r name s = (Inr df', s')"
  have eq: "reset_index (set_index_name name (index_add 1 (reset_index_drop (s r))))
      = create_index_value (s r) name"
    by (simp add: create_index_value_def)
  from h obtain d where d: "create_index_value (s r) name = Inr d" and "df' = r" "s' df' = d"
    by (auto simp: create_index_def Let_def eq split: sum.splits)
  then show "col (s' df') name = Some (map IntV [1..int (nrows (s r))])"
    using create_index_value_col [OF d] by simp
next
  show "col build_bars_dataframe ''bar_id'' = Some [IntV 1, IntV 2, IntV 3]"
    by (rule col_build_bars)
qed

theorem create_index_keys_witness:
  "(\<exists>df'. create_index_value example_glasses ''glass_id'' = Inr df') \<and>
   col (projr (create_index_value example_glasses ''glass_id'')) ''glass_id''
     = Some [IntV 1, IntV 2] \<and>
   col (snd (create_index 0 ''glass_id'' example_store) 0) ''glass_id'' = Some [IntV 1, IntV 2]"
proof -
  have fresh: "''glass_id'' \<notin> set (columns example_glasses)"
    by (simp add: example_glasses_def)
  have n: "[1..int (nrows example_glasses)] = [1, 2]"
    by (simp add: example_glasses_def nrows_def upto_rec1)
  note inst = create_index_keys [of "''glass_id''" example_glasses example_store]
  from inst fresh obtain df' where d: "create_index_value example_glasses ''glass_id'' = Inr df'"
    by blast
  with inst have c: "col df' ''glass_id'' = Some (map IntV [1..int (nrows example_glasses)])"
    by blast
  have "create_index 0 ''glass_id'' example_store
      = (Inr 0, snd (create_index 0 ''glass_id'' example_store))"
    using d by (simp add: create_index_def create_index_value_def example_store_def Let_def)
  with inst have "col (snd (create_index 0 ''glass_id'' example_store) 0) ''glass_id''
      = Some (map IntV [1..int (nrows (example_store 0))])"
    by blast
  with d c n show ?thesis
    by (simp add: example_store_def)
qed

section \<open>Sequencing\<close>

lemma then_do_simps [simp]:
  "then_do (Inl e) f = Inl e" "then_do (Inr x) f = f x"
  by (simp_all add: then_do_def)

lemma then_do_Inr: "then_do m f = Inr y \<longleftrightarrow> (\<exists>x. m = Inr x \<and> f x = Inr y)"
  by (cases m) simp_all

lemma then_do_Inl: "then_do m f = Inl e \<longleftrightarrow> m = Inl e \<or> (\<exists>x. m = Inr x \<and> f x = Inl e)"
  by (cases m) simp_all

section \<open>The Indexer and the caller's table\<close>

lemma create_index_unfold:
  "create_index r name s =
     (case create_index_value (s r) name of
        Inl e \<Rightarrow> (Inl e, s(r := set_index_name name (index_add 1 (reset_index_drop (s r)))))
      | Inr d \<Rightarrow> (Inr r, s(r := d)))"
  by (simp add: create_index_def create_index_value_def Let_def split: sum.splits)

text \<open>
  C4, as stated, fails: the caller's table object is not what it was before the call.
  In a store whose object \<open>0\<close> is the two-row table \<open>example_glasses\<close>, that object is a
  different table after \<^verbatim>\<open>create_index\<close>.
\<close>

theorem create_index_mutates_caller:
  "snd (create_index 0 ''glass_id'' example_store) 0 \<noteq> example_store 0"
  by (simp add: create_index_unfold create_index_value_def reset_index_def set_index_name_def
      index_add_def reset_index_drop_def example_store_def example_glasses_def nrows_def)

text \<open>
  C4, amended. The Indexer works on the caller's table object itself, not on a copy.
  It returns the reference it was given; after a successful call that object is the
  indexed table, with the key column in front of the original columns and the cells of
  the original columns unchanged. When the call raises, columns and cells of the object
  are as before. Every other object of the store is unchanged.
\<close>

theorem create_index_in_place:
  "create_index r name s = (res, s') \<Longrightarrow>
     (\<forall>r'. r' \<noteq> r \<longrightarrow> s' r' = s r') \<and>
     (case res of
        Inr r'' \<Rightarrow> r'' = r \<and> create_index_value (s r) name = Inr (s' r) \<and>
                  columns (s' r) = name # columns (s r) \<and> map tl (data (s' r)) = data (s r)
      | Inl e \<Rightarrow> create_index_value (s r) name = Inl e \<and>
                  columns (s' r) = columns (s r) \<and> data (s' r) = data (s r))"
proof (cases "create_index_value (s r) name")
  case (Inl e)
  assume "create_index r name s = (res, s')"
  with Inl show ?thesis
    by (auto simp: create_index_unfold set_index_name_def index_add_def reset_index_drop_def)
next
  case (Inr d)
  assume "create_index r name s = (res, s')"
  with Inr create_index_value_data [OF Inr] show ?thesis
    by (auto simp: create_index_unfold)
qed

theorem create_index_in_place_witness:
  "fst (create_index 0 ''glass_id'' example_store) = Inr 0 \<and>
   snd (create_index 0 ''glass_id'' example_store) 1 = example_glasses \<and>
   columns (snd (create_index 0 ''glass_id'' example_store) 0) = [''glass_id'', ''glass_name''] \<and>
   map tl (data (snd (create_index 0 ''glass_id'' example_store) 0)) = data example_glasses"
proof -
  have ok: "fst (create_index 0 ''glass_id'' example_store) = Inr 0"
    by (simp add: create_index_unfold create_index_value_def reset_index_def set_index_name_def
      index_add_def reset_index_drop_def example_store_def example_glasses_def nrows_def)
  have "create_index 0 ''glass_id'' example_store
      = (Inr 0, snd (create_index 0 ''glass_id'' example_store))"
    using ok by (metis prod.collapse)
  from create_index_in_place [OF this] ok show ?thesis
    by (simp add: example_store_def example_glasses_def)
qed

section \<open>Lists, positions and fallible maps\<close>

lemma index_of_Some: "index_of x xs = Some i \<Longrightarrow> i < length xs \<and> xs ! i = x"
  by (induction xs arbitrary: i) (auto split: if_splits)

lemma index_of_None: "index_of x xs = None \<longleftrightarrow> x \<notin> set xs"
  by (induction xs) auto

lemma index_of_mem: "x \<in> set xs \<Longrightarrow> \<exists>i. index_of x xs = Some i"
  using index_of_None [of x xs] by (cases "index_of x xs") auto

lemma mapM_Inr: "mapM f xs = Inr ys \<longleftrightarrow> list_all2 (\<lambda>x y. f x = Inr y) xs ys"
proof (induction xs arbitrary: ys)
  case Nil
  show ?case by auto
next
  case (Cons x xs)
  show ?case
    by (cases ys) (auto simp: Cons.IH [symmetric] split: sum.splits)
qed

lemma mapM_Inl: "mapM f xs = Inl e \<Longrightarrow> \<exists>x\<in>set xs. f x = Inl e"
  by (induction xs) (auto split: sum.splits)

lemma mapM_total: "(\<And>x. x \<in> set xs \<Longrightarrow> \<exists>y. f x = Inr y) \<Longrightarrow> \<exists>ys. mapM f xs = Inr ys"
proof (induction xs)
  case Nil
  show ?case by simp
next
  case (Cons x xs)
  then obtain y ys where "f x = Inr y" "mapM f xs = Inr ys"
    by (meson list.set_intros)
  then show ?case by simp
qed

lemma mapM_fails: "x \<in> set xs \<Longrightarrow> f x = Inl e \<Longrightarrow> \<exists>e'. mapM f xs = Inl e'"
  by (induction xs) (auto split: sum.splits)

lemma mapM_length: "mapM f xs = Inr ys \<Longrightarrow> length ys = length xs"
  by (simp add: mapM_Inr list_all2_lengthD)

lemma mapM_nth: "mapM f xs = Inr ys \<Longrightarrow> i < length xs \<Longrightarrow> f (xs ! i) = Inr (ys ! i)"
  using list_all2_nthD [of "\<lambda>x y. f x = Inr y" xs ys i] by (simp add: mapM_Inr)

section \<open>The Catalog Fetcher\<close>

lemma project_Inr:
  "project cs df = Inr p \<longleftrightarrow>
     (\<exists>is. list_all2 (\<lambda>c i. index_of c (columns df) = Some i) cs is \<and>
           p = df\<lparr>columns := cs, data := map (\<lambda>r. map ((!) r) is) (data df)\<rparr>)"
proof -
  have "(case index_of c (columns df) of None \<Rightarrow> Inl KeyError | Some i \<Rightarrow> Inr i) = Inr i
      \<longleftrightarrow> index_of c (columns df) = Some i" for c i
    by (simp split: option.splits)
  then show ?thesis
    by (auto simp: project_def then_do_Inr mapM_Inr)
qed

lemma project_Inl: "project cs df = Inl e \<Longrightarrow> e = KeyError \<and> \<not> set cs \<subseteq> set (columns df)"
proof -
  assume "project cs df = Inl e"
  then have "mapM (\<lambda>c. case index_of c (columns df) of None \<Rightarrow> Inl KeyError | Some i \<Rightarrow> Inr i) cs = Inl e"
    by (simp add: project_def then_do_Inl)
  then obtain c where "c \<in> set cs"
    and "(case index_of c (columns df) of None \<Rightarrow> Inl KeyError | Some i \<Rightarrow> Inr i) = Inl e"
    using mapM_Inl by fastforce
  then show ?thesis
    by (auto simp: index_of_None split: option.splits)
qed

lemma project_total: "set cs \<subseteq> set (columns df) \<Longrightarrow> \<exists>p. project cs df = Inr p"
proof -
  assume sub: "set cs \<subseteq> set (columns df)"
  define f where "f c = (case index_of c (columns df) of None \<Rightarrow> Inl KeyError | Some i \<Rightarrow> Inr i)" for c
  have "\<exists>y. f c = Inr y" if "c \<in> set cs" for c
  proof -
    from that sub have "c \<in> set (columns df)" by (rule subsetD [rotated])
    then obtain i where "index_of c (columns df) = Some i"
      using index_of_mem by fastforce
    then show ?thesis by (simp add: f_def)
  qed
  then obtain "is" where "mapM f cs = Inr is"
    using mapM_total [of cs f] by fastforce
  then show ?thesis
    unfolding project_def f_def by simp
qed

lemma nth_map_positions:
  "list_all2 (\<lambda>c i. index_of c cols = Some i) cs is \<Longrightarrow> map ((!) (map g cols)) is = map g cs"
  by (induction cs "is" rule: list_all2_induct) (auto dest: index_of_Some)

lemma str_lower_Inr: "str_lower v = Inr w \<longleftrightarrow> (\<exists>s. v = StrV s \<and> w = StrV (lower s))"
  by (cases v) (auto simp: str_lower_def)

lemma val_of_json_StrV: "val_of_json j = StrV s \<longleftrightarrow> j = JString s"
  by (cases j) (auto simp: val_of_json_def)

lemma lookup_StrV:
  "(case map_of e c of None \<Rightarrow> NaN | Some v \<Rightarrow> val_of_json v) = StrV s
     \<longleftrightarrow> map_of e c = Some (JString s)"
  by (simp add: val_of_json_StrV split: option.splits)

lemma get_drinks_data_None: "api url = Inr None \<Longrightarrow> get_drinks_data api url = Inr None"
  by (simp add: get_drinks_data_def)

lemma get_drinks_data_Some:
  assumes "get_drinks_data api url = Inr (Some df)"
  shows "\<exists>entries. api url = Inr (Some entries) \<and> columns df = drinks_columns \<and>
     list_all2 (\<lambda>e r. \<exists>i n g. map_of e ''idDrink'' = Some (JString i) \<and>
                        map_of e ''strDrink'' = Some (JString n) \<and>
                        map_of e ''strGlass'' = Some (JString g) \<and>
                        r = [StrV (lower i), StrV (lower n), StrV (lower g)]) entries (data df)"
proof -
  from assms obtain entries where api: "api url = Inr (Some entries)"
    by (auto simp: get_drinks_data_def split: sum.splits option.splits)
  define lk :: "drink_entry \<Rightarrow> string \<Rightarrow> val"
    where "lk = (\<lambda>e c. case map_of e c of None \<Rightarrow> NaN | Some v \<Rightarrow> val_of_json v)"
  define cols where "cols = keep_first (concat (map (map fst) entries))"
  have jn: "json_normalize entries = DataFrame (map (\<lambda>e. map (lk e) cols) entries) cols"
    by (simp add: json_normalize_def cols_def lk_def Let_def)
  from assms api obtain p q where
    p: "project [''idDrink'', ''strDrink'', ''strGlass''] (json_normalize entries) = Inr p" and
    q: "applymap str_lower p = Inr q" and
    d: "set_columns [''cocktail_db_id'', ''drink_name'', ''glass_name''] q = Inr df"
    by (auto simp: get_drinks_data_def then_do_Inr)
  from p obtain "is" where
    pos: "list_all2 (\<lambda>c i. index_of c cols = Some i) [''idDrink'', ''strDrink'', ''strGlass''] is"
    and pdata: "data p = map (\<lambda>r. map ((!) r) is) (map (\<lambda>e. map (lk e) cols) entries)"
    by (auto simp: project_Inr jn DataFrame_def)
  have pdata': "data p = map (\<lambda>e. [lk e ''idDrink'', lk e ''strDrink'', lk e ''strGlass'']) entries"
  proof -
    have "map ((!) (map (lk e) cols)) is = [lk e ''idDrink'', lk e ''strDrink'', lk e ''strGlass'']"
      for e
      using nth_map_positions [OF pos, of "lk e"] by simp
    then show ?thesis
      by (simp add: pdata comp_def)
  qed
  from q have "list_all2 (\<lambda>r r'. mapM str_lower r = Inr r') (data p) (data q)"
    by (auto simp: applymap_def then_do_Inr mapM_Inr)
  then have "list_all2 (\<lambda>e r'. mapM str_lower [lk e ''idDrink'', lk e ''strDrink'', lk e ''strGlass'']
      = Inr r') entries (data q)"
    by (simp add: pdata' list_all2_map1)
  then have "list_all2 (\<lambda>e r. \<exists>i n g. map_of e ''idDrink'' = Some (JString i) \<and>
                        map_of e ''strDrink'' = Some (JString n) \<and>
                        map_of e ''strGlass'' = Some (JString g) \<and>
                        r = [StrV (lower i), StrV (lower n), StrV (lower g)]) entries (data q)"
  proof (rule list_all2_mono)
    fix e r'
    assume "mapM str_lower [lk e ''idDrink'', lk e ''strDrink'', lk e ''strGlass''] = Inr r'"
    then obtain a b c where "str_lower (lk e ''idDrink'') = Inr a"
      "str_lower (lk e ''strDrink'') = Inr b" "str_lower (lk e ''strGlass'') = Inr c" "r' = [a, b, c]"
      by (auto split: sum.splits)
    then show "\<exists>i n g. map_of e ''idDrink'' = Some (JString i) \<and>
                        map_of e ''strDrink'' = Some (JString n) \<and>
                        map_of e ''strGlass'' = Some (JString g) \<and>
                        r' = [StrV (lower i), StrV (lower n), StrV (lower g)]"
      by (auto simp: str_lower_Inr lk_def lookup_StrV)
  qed
  moreover from d have "data df = data q" "columns df = drinks_columns"
    by (auto simp: set_columns_def drinks_columns_def split: if_splits)
  ultimately show ?thesis
    using api by auto
qed

section \<open>Concatenation and the letter loop\<close>

lemma keep_first_append_sub:
  assumes "distinct xs" "set ys \<subseteq> set xs"
  shows "keep_first (xs @ ys) = xs"
proof -
  have "remdups (zs @ rev xs) = remdups (rev xs)" if "set zs \<subseteq> set xs" for zs
    using that by (induction zs) auto
  from this [of "rev ys"] assms show ?thesis
    by (simp add: keep_first_def distinct_remdups_id)
qed

lemma index_of_nth_distinct: "distinct xs \<Longrightarrow> k < length xs \<Longrightarrow> index_of (xs ! k) xs = Some k"
proof (induction xs arbitrary: k)
  case Nil
  then show ?case by simp
next
  case (Cons x xs)
  then show ?case
    by (cases k) auto
qed

lemma reindex_row_id:
  assumes "distinct cs" "length r = length cs"
  shows "reindex_row cs cs r = r"
proof (rule nth_equalityI)
  show "length (reindex_row cs cs r) = length r"
    using assms(2) by (simp add: reindex_row_def)
next
  fix k assume "k < length (reindex_row cs cs r)"
  then have k: "k < length cs"
    by (simp add: reindex_row_def)
  with assms(1) have "index_of (cs ! k) cs = Some k"
    by (rule index_of_nth_distinct)
  with k show "reindex_row cs cs r ! k = r ! k"
    by (simp add: reindex_row_def)
qed

lemma promote_val_id: "\<not> is_int v \<Longrightarrow> promote_val v = v"
  by (cases v) (simp_all add: promote_val_def is_int_def)

lemma promote_where_id:
  assumes "\<forall>v\<in>set r. \<not> is_int v"
  shows "promote_where f r = r"
proof -
  have "map (\<lambda>(j, v). if f j then promote_val v else v) (enumerate 0 r) = map snd (enumerate 0 r)"
  proof (rule map_cong [OF refl])
    fix p assume "p \<in> set (enumerate 0 r)"
    then have "fst p < length r" "r ! fst p = snd p"
      by (simp_all add: in_set_enumerate_eq)
    then have "snd p \<in> set r"
      by (metis nth_mem)
    with assms have "promote_val (snd p) = snd p"
      by (simp add: promote_val_id)
    then show "(case p of (j, v) \<Rightarrow> if f j then promote_val v else v) = snd p"
      by (cases p) simp
  qed
  then show ?thesis
    by (simp add: promote_where_def)
qed

lemma pd_concat_empty: "pd_concat [] = Inl ValueError"
  by (simp add: pd_concat_def)

lemma pd_concat_same_columns:
  assumes ne: "dfs \<noteq> []"
    and cols: "\<forall>df\<in>set dfs. columns df = cs"
    and dist: "distinct cs"
    and rows: "\<forall>df\<in>set dfs. \<forall>r\<in>set (data df). length r = length cs \<and> (\<forall>v\<in>set r. \<not> is_int v)"
  shows "\<exists>d. pd_concat dfs = Inr d \<and> columns d = cs \<and> data d = concat (map data dfs) \<and>
     index d = concat (map index dfs)"
proof -
  from ne obtain d ds where dfs: "dfs = d # ds"
    by (cases dfs) auto
  have "set (concat (map columns ds)) \<subseteq> set cs"
    using cols dfs by auto
  with dist have kf: "keep_first (concat (map columns dfs)) = cs"
    using cols dfs keep_first_append_sub [of cs "concat (map columns ds)"] by simp
  have same: "map (reindex_row (columns df) cs) (data df) = data df" if "df \<in> set dfs" for df
    using that cols rows dist by (auto intro!: map_idI reindex_row_id)
  have raw: "concat (map (\<lambda>df. map (reindex_row (columns df) cs) (data df)) dfs) = concat (map data dfs)"
    using same by (auto intro!: arg_cong [where f = concat] map_cong)
  have "map (promote_where f) (concat (map data dfs)) = concat (map data dfs)" for f
    using rows by (auto intro!: map_idI promote_where_id)
  with ne kf raw show ?thesis
    by (simp add: pd_concat_def Let_def)
qed

lemma letters_loop_Inr:
  "letters_loop api ls acc = Inr dfs \<longleftrightarrow>
     (\<forall>l\<in>set ls. \<not> isl (get_drinks_data api (search_url l))) \<and>
     dfs = acc @ concat (map (letter_tables api) ls)"
  by (induction ls arbitrary: acc)
    (auto simp: letter_tables_def split: sum.splits option.splits)

lemma letters_loop_Inl:
  "letters_loop api ls acc = Inl e \<Longrightarrow> \<exists>l\<in>set ls. get_drinks_data api (search_url l) = Inl e"
  by (induction ls arbitrary: acc) (auto split: sum.splits option.splits)

lemma letter_tables_frame:
  assumes "df \<in> set (letter_tables api l)"
  shows "columns df = drinks_columns"
    and "\<forall>r\<in>set (data df). length r = length drinks_columns \<and> (\<forall>v\<in>set r. \<not> is_int v)"
proof -
  from assms have g: "get_drinks_data api (search_url l) = Inr (Some df)"
    by (auto simp: letter_tables_def split: sum.splits option.splits)
  from get_drinks_data_Some [OF g] obtain entries where
    c: "columns df = drinks_columns" and
    a: "list_all2 (\<lambda>e r. \<exists>i n g. map_of e ''idDrink'' = Some (JString i) \<and>
                        map_of e ''strDrink'' = Some (JString n) \<and>
                        map_of e ''strGlass'' = Some (JString g) \<and>
                        r = [StrV (lower i), StrV (lower n), StrV (lower g)]) entries (data df)"
    by blast
  show "columns df = drinks_columns" by (rule c)
  show "\<forall>r\<in>set (data df). length r = length drinks_columns \<and> (\<forall>v\<in>set r. \<not> is_int v)"
  proof
    fix r assume "r \<in> set (data df)"
    then obtain k where "k < length (data df)" "r = data df ! k"
      by (auto simp: in_set_conv_nth)
    with a obtain i n g where "r = [StrV (lower i), StrV (lower n), StrV (lower g)]"
      by (auto simp: list_all2_conv_all_nth)
    then show "length r = length drinks_columns \<and> (\<forall>v\<in>set r. \<not> is_int v)"
      by (simp add: drinks_columns_def is_int_def)
  qed
qed

lemma build_drinks_Inr:
  assumes "build_drinks_dataframe api = Inr drinks"
  shows "\<forall>l\<in>set ascii_lowercase. \<not> isl (get_drinks_data api (search_url l))"
    and "columns drinks = ''drink_id'' # drinks_columns"
    and "map tl (data drinks) = concat (map data (concat (map (letter_tables api) ascii_lowercase)))"
proof -
  define dfs where "dfs = concat (map (letter_tables api) ascii_lowercase)"
  from assms obtain d where
    loop: "letters_loop api ascii_lowercase [] = Inr dfs" and
    cat: "pd_concat dfs = Inr d" and
    idx: "create_index_value d ''drink_id'' = Inr drinks"
    by (auto simp: build_drinks_dataframe_def then_do_Inr letters_loop_Inr dfs_def)
  from loop show "\<forall>l\<in>set ascii_lowercase. \<not> isl (get_drinks_data api (search_url l))"
    by (simp add: letters_loop_Inr)
  from cat have ne: "dfs \<noteq> []"
    by (auto simp: pd_concat_empty)
  have fr: "\<forall>df\<in>set dfs. columns df = drinks_columns"
    "\<forall>df\<in>set dfs. \<forall>r\<in>set (data df). length r = length drinks_columns \<and> (\<forall>v\<in>set r. \<not> is_int v)"
    using letter_tables_frame by (auto simp: dfs_def)
  have "distinct drinks_columns"
    by (simp add: drinks_columns_def)
  from pd_concat_same_columns [OF ne fr(1) this fr(2)] cat
  have d: "columns d = drinks_columns" "data d = concat (map data dfs)"
    by auto
  from create_index_value_data [OF idx] d
  show "columns drinks = ''drink_id'' # drinks_columns"
    and "map tl (data drinks) = concat (map data (concat (map (letter_tables api) ascii_lowercase)))"
    by (simp_all add: dfs_def)
qed

lemma build_drinks_total:
  assumes ok: "\<forall>l\<in>set ascii_lowercase. \<not> isl (get_drinks_data api (search_url l))"
    and some: "concat (map (letter_tables api) ascii_lowercase) \<noteq> []"
  shows "\<exists>drinks. build_drinks_dataframe api = Inr drinks"
proof -
  define dfs where "dfs = concat (map (letter_tables api) ascii_lowercase)"
  from ok have loop: "letters_loop api ascii_lowercase [] = Inr dfs"
    by (simp add: letters_loop_Inr dfs_def)
  have fr: "\<forall>df\<in>set dfs. columns df = drinks_columns"
    "\<forall>df\<in>set dfs. \<forall>r\<in>set (data df). length r = length drinks_columns \<and> (\<forall>v\<in>set r. \<not> is_int v)"
    using letter_tables_frame by (auto simp: dfs_def)
  have "distinct drinks_columns"
    by (simp add: drinks_columns_def)
  from pd_concat_same_columns [OF _ fr(1) this fr(2)] some
  obtain d where d: "pd_concat dfs = Inr d" "columns d = drinks_columns"
    by (auto simp: dfs_def)
  then have "''drink_id'' \<notin> set (columns d)"
    by (simp add: drinks_columns_def)
  then obtain drinks where "create_index_value d ''drink_id'' = Inr drinks"
    by (auto simp: create_index_value_Inr)
  with loop d show ?thesis
    by (auto simp: build_drinks_dataframe_def)
qed

section \<open>The drinks builder\<close>

lemma get_drinks_data_null_iff:
  "get_drinks_data api url = Inr None \<longleftrightarrow> api url = Inr None"
  by (auto simp: get_drinks_data_def then_do_def split: sum.splits option.splits)

text \<open>
  C10. When the lookup of every letter returns no matching entries, \<^verbatim>\<open>df_list\<close> stays
  empty and \<^verbatim>\<open>pd.concat\<close> raises: the drinks builder ends in a \<^verbatim>\<open>ValueError\<close> and
  returns no table.
\<close>

theorem build_drinks_no_matches:
  "\<forall>letter\<in>set ascii_lowercase. api (search_url letter) = Inr None \<Longrightarrow>
     build_drinks_dataframe api = Inl ValueError"
proof -
  assume null: "\<forall>letter\<in>set ascii_lowercase. api (search_url letter) = Inr None"
  then have "\<forall>l\<in>set ascii_lowercase. get_drinks_data api (search_url l) = Inr None"
    by (simp add: get_drinks_data_None)
  then have "letters_loop api ascii_lowercase [] = Inr []"
    by (simp add: letters_loop_Inr letter_tables_def)
  then show ?thesis
    by (simp add: build_drinks_dataframe_def pd_concat_empty)
qed

theorem build_drinks_no_matches_witness:
  "build_drinks_dataframe empty_catalog = Inl ValueError"
  using build_drinks_no_matches [of empty_catalog] by (simp add: empty_catalog_def)

lemma example_catalog_drinks: "build_drinks_dataframe example_catalog = Inr example_drinks"
  by code_simp

lemma example_catalog_letters:
  "\<forall>l\<in>set ascii_lowercase. example_catalog (search_url l) = Inr None \<or>
     (\<exists>df. get_drinks_data example_catalog (search_url l) = Inr (Some df))"
proof -
  have "\<forall>l\<in>set ascii_lowercase. example_catalog (search_url l) = Inr None \<or>
     (case get_drinks_data example_catalog (search_url l) of
        Inr (Some df) \<Rightarrow> True | _ \<Rightarrow> False)"
    by code_simp
  moreover have "\<exists>df. x = Inr (Some df)"
    if "case x of Inr (Some df) \<Rightarrow> True | _ \<Rightarrow> False" for x :: "error + dataframe option"
    using that by (auto split: sum.splits option.splits)
  ultimately show ?thesis
    by blast
qed

lemma example_catalog_m:
  "case get_drinks_data example_catalog (search_url CHR ''m'') of
     Inr (Some df) \<Rightarrow> True | _ \<Rightarrow> False"
  by code_simp

text \<open>
  C7. A letter whose response has a null \<^verbatim>\<open>drinks\<close> field gives \<^verbatim>\<open>None\<close> and adds no
  table to \<^verbatim>\<open>df_list\<close>, without an error. The rows of the drinks table, behind the
  key column, are the rows of the tables of the letters that had entries, in letter
  order. When every letter either has a null field or yields a table, and some letter
  yields a table, the drinks builder returns.
\<close>

theorem null_letter_contributes_nothing:
  "(api (search_url letter) = Inr None \<longrightarrow>
      get_drinks_data api (search_url letter) = Inr None \<and> letter_tables api letter = []) \<and>
   (\<forall>drinks. build_drinks_dataframe api = Inr drinks \<longrightarrow>
      map tl (data drinks) = concat (map data (concat (map (letter_tables api) ascii_lowercase)))) \<and>
   ((\<forall>l\<in>set ascii_lowercase. api (search_url l) = Inr None \<or>
        (\<exists>df. get_drinks_data api (search_url l) = Inr (Some df))) \<and>
    (\<exists>l\<in>set ascii_lowercase. \<exists>df. get_drinks_data api (search_url l) = Inr (Some df)) \<longrightarrow>
      (\<exists>drinks. build_drinks_dataframe api = Inr drinks))"
proof (intro conjI allI impI)
  assume "api (search_url letter) = Inr None"
  then show "get_drinks_data api (search_url letter) = Inr None"
    by (rule get_drinks_data_None)
  then show "letter_tables api letter = []"
    by (simp add: letter_tables_def)
next
  fix drinks assume "build_drinks_dataframe api = Inr drinks"
  then show "map tl (data drinks)
      = concat (map data (concat (map (letter_tables api) ascii_lowercase)))"
    by (rule build_drinks_Inr(3))
next
  assume h: "(\<forall>l\<in>set ascii_lowercase. api (search_url l) = Inr None \<or>
        (\<exists>df. get_drinks_data api (search_url l) = Inr (Some df))) \<and>
    (\<exists>l\<in>set ascii_lowercase. \<exists>df. get_drinks_data api (search_url l) = Inr (Some df))"
  then have ok: "\<forall>l\<in>set ascii_lowercase. \<not> isl (get_drinks_data api (search_url l))"
    by (auto simp: get_drinks_data_None)
  from h obtain l df where "l \<in> set ascii_lowercase"
    "get_drinks_data api (search_url l) = Inr (Some df)"
    by blast
  then have "l \<in> set ascii_lowercase" "letter_tables api l = [df]"
    by (simp_all add: letter_tables_def)
  then have "df \<in> set (concat (map (letter_tables api) ascii_lowercase))"
    by force
  then have "concat (map (letter_tables api) ascii_lowercase) \<noteq> []"
    by (metis empty_iff empty_set)
  with ok show "\<exists>drinks. build_drinks_dataframe api = Inr drinks"
    by (rule build_drinks_total)
qed


theorem null_letter_contributes_nothing_witness:
  "letter_tables example_catalog CHR ''b'' = [] \<and>
   map tl (data example_drinks)
     = concat (map data (concat (map (letter_tables example_catalog) ascii_lowercase))) \<and>
   (\<exists>drinks. build_drinks_dataframe example_catalog = Inr drinks)"
proof -
  note inst = null_letter_contributes_nothing [of example_catalog "CHR ''b''"]
  have b: "example_catalog (search_url CHR ''b'') = Inr None"
    by (simp add: example_catalog_def search_url_def)
  have m: "\<exists>l\<in>set ascii_lowercase. \<exists>df.
      get_drinks_data example_catalog (search_url l) = Inr (Some df)"
    using example_catalog_m
    by (intro bexI [of _ "CHR ''m''"]) (auto simp: ascii_lowercase_def split: sum.splits option.splits)
  from inst b have "letter_tables example_catalog CHR ''b'' = []"
    by blast
  moreover from inst example_catalog_drinks have "map tl (data example_drinks)
     = concat (map data (concat (map (letter_tables example_catalog) ascii_lowercase)))"
    by blast
  moreover from inst example_catalog_letters m
  have "\<exists>drinks. build_drinks_dataframe example_catalog = Inr drinks"
    by blast
  ultimately show ?thesis
    by blast
qed

section \<open>Parsing the stock\<close>

lemma split_nonempty: "split sep s \<noteq> []"
  by (induction s) (auto split: list.splits)

lemma split_first_token: "sep \<notin> set t \<Longrightarrow> split sep (t @ sep # u) = t # split sep u"
  by (induction t) (auto split: list.splits)

lemma parse_stock_token:
  assumes "CHR '' '' \<notin> set t"
  shows "parse_stock (StrV (t @ CHR '' '' # u))
     = (case py_int t of None \<Rightarrow> Inl ValueError | Some n \<Rightarrow> Inr (IntV n))"
  using split_first_token [OF assms, of u] by (simp add: parse_stock_def)

lemma digit_cases: "d < 10 \<Longrightarrow> d \<in> {0, 1, 2, 3, 4, 5, 6, 7, 8, 9 :: nat}"
  by auto

lemma digit_char_props:
  assumes "d < 10"
  shows "is_digit (digit_char d)" and "digit_val (digit_char d) = int d"
    and "\<not> is_space (digit_char d)" and "digit_char d \<noteq> CHR ''-''" and "digit_char d \<noteq> CHR ''+''"
    and "digit_char d \<noteq> CHR '' ''"
  using digit_cases [OF assms]
  by (auto simp: digit_char_def is_digit_def digit_val_def is_space_def)

lemma parse_digits_snoc:
  "\<forall>c\<in>set ds. is_digit c \<Longrightarrow> is_digit c' \<Longrightarrow>
     parse_digits acc (ds @ [c']) = map_option (\<lambda>a. 10 * a + digit_val c') (parse_digits acc ds)"
  by (induction ds arbitrary: acc) auto

lemma str_of_nat_digits:
  "(\<forall>c\<in>set (str_of_nat n). \<exists>d<10. c = digit_char d) \<and> str_of_nat n \<noteq> [] \<and>
   parse_digits 0 (str_of_nat n) = Some (int n)"
proof (induction n rule: str_of_nat.induct)
  case (1 n)
  show ?case
  proof (cases "n < 10")
    case True
    have s: "str_of_nat n = [digit_char n]"
      using True by (subst str_of_nat.simps) simp
    have "parse_digits 0 [digit_char n] = Some (int n)"
      using digit_char_props(1,2) [OF True] by simp
    moreover have "\<exists>d<10. digit_char n = digit_char d"
      using True by (intro exI [of _ n] conjI refl)
    ultimately show ?thesis
      unfolding s by simp
  next
    case False
    note ih0 = 1 [OF False]
    have ih: "\<forall>c\<in>set (str_of_nat (n div 10)). \<exists>d<10. c = digit_char d"
      "parse_digits 0 (str_of_nat (n div 10)) = Some (int (n div 10))"
      using ih0 by (rule conjunct1, rule conjunct2 [THEN conjunct2])
    have eq: "str_of_nat n = str_of_nat (n div 10) @ [digit_char (n mod 10)]"
      using False by (subst str_of_nat.simps) simp
    have dig: "\<forall>c\<in>set (str_of_nat (n div 10)). is_digit c"
    proof
      fix c assume "c \<in> set (str_of_nat (n div 10))"
      with ih(1) obtain d where "d < 10" "c = digit_char d"
        by auto
      then show "is_digit c"
        by (simp add: digit_char_props(1))
    qed
    have m: "n mod 10 < 10" by simp
    have pd: "parse_digits 0 (str_of_nat (n div 10) @ [digit_char (n mod 10)])
        = Some (10 * int (n div 10) + int (n mod 10))"
      by (simp only: parse_digits_snoc [OF dig digit_char_props(1) [OF m]] ih(2) option.map
          digit_char_props(2) [OF m])
    have ar: "10 * int (n div 10) + int (n mod 10) = int n"
    proof -
      have "int (10 * (n div 10) + n mod 10) = int n"
        by (simp only: mult_div_mod_eq)
      then show ?thesis
        by (simp only: of_nat_add of_nat_mult of_nat_numeral)
    qed
    have p: "parse_digits 0 (str_of_nat n) = Some (int n)"
      by (simp only: eq pd ar)
    have ne: "str_of_nat n \<noteq> []"
      by (subst eq) simp
    have "\<exists>d<10. c = digit_char d" if "c \<in> set (str_of_nat n)" for c
    proof -
      from that have "c \<in> set (str_of_nat (n div 10)) \<or> c = digit_char (n mod 10)"
        by (subst (asm) eq) auto
      then show ?thesis
      proof
        assume "c \<in> set (str_of_nat (n div 10))"
        with ih(1) show ?thesis by (rule bspec)
      next
        assume "c = digit_char (n mod 10)"
        with m show ?thesis by (intro exI [of _ "n mod 10"] conjI)
      qed
    qed
    with p ne show ?thesis
      by blast
  qed
qed

lemma str_of_nat_chars:
  assumes "c \<in> set (str_of_nat n)"
  shows "is_digit c" "\<not> is_space c" "c \<noteq> CHR ''-''" "c \<noteq> CHR ''+''" "c \<noteq> CHR '' ''"
proof -
  from assms str_of_nat_digits [of n] obtain d where "d < 10" "c = digit_char d"
    by auto
  then show "is_digit c" "\<not> is_space c" "c \<noteq> CHR ''-''" "c \<noteq> CHR ''+''" "c \<noteq> CHR '' ''"
    by (simp_all add: digit_char_props)
qed

lemma strip_id: "\<forall>c\<in>set s. \<not> is_space c \<Longrightarrow> strip s = s"
proof -
  assume a: "\<forall>c\<in>set s. \<not> is_space c"
  have "dropWhile is_space xs = xs" if "\<forall>c\<in>set xs. \<not> is_space c" for xs
    using that by (cases xs) auto
  from this [of "rev s"] this [of s] a show ?thesis
    by (simp add: strip_def)
qed

lemma parse_literal_str_of_nat: "parse_literal (str_of_nat n) = Some (int n)"
proof -
  obtain c cs where s: "str_of_nat n = c # cs"
    using str_of_nat_digits [of n] by (cases "str_of_nat n") auto
  then have "is_digit c"
    using str_of_nat_chars(1) [of c n] by simp
  with s str_of_nat_digits [of n] show ?thesis
    by (simp add: parse_literal_def)
qed

lemma py_int_str_of_int: "py_int (str_of_int n) = Some n"
proof -
  have d: "\<forall>c\<in>set (str_of_nat k). \<not> is_space c \<and> c \<noteq> CHR ''-'' \<and> c \<noteq> CHR ''+''" for k
    using str_of_nat_chars [of _ k] by auto
  show ?thesis
  proof (cases "n < 0")
    case True
    have "\<not> is_space CHR ''-''"
      by (simp add: is_space_def)
    with d [of "nat (- n)"] have "strip (CHR ''-'' # str_of_nat (nat (- n))) = CHR ''-'' # str_of_nat (nat (- n))"
      by (intro strip_id) simp
    with True show ?thesis
      by (simp add: py_int_def str_of_int_def parse_literal_str_of_nat)
  next
    case False
    obtain c cs where s: "str_of_nat (nat n) = c # cs"
      using str_of_nat_digits [of "nat n"] by (cases "str_of_nat (nat n)") auto
    with d [of "nat n"] have c: "c \<noteq> CHR ''-''" "c \<noteq> CHR ''+''"
      by auto
    have "strip (str_of_nat (nat n)) = str_of_nat (nat n)"
      using d [of "nat n"] by (intro strip_id) simp
    with False s c parse_literal_str_of_nat [of "nat n"] show ?thesis
      by (simp add: py_int_def str_of_int_def)
  qed
qed

lemma str_of_int_no_space: "CHR '' '' \<notin> set (str_of_int n)"
proof -
  have "CHR '' '' \<notin> set (str_of_nat k)" for k
    using str_of_nat_chars(5) [of "CHR '' ''" k] by auto
  then show ?thesis
    by (simp add: str_of_int_def)
qed

text \<open>
  C8. The inventory builder turns a stock string into an integer by converting its
  first piece up to a space: when the text \<open>t\<close> before the first space converts to
  \<open>n\<close>, the string \<open>t\<close>, space, \<open>unit\<close> parses to \<open>n\<close>. That holds for the decimal
  form of every integer, whatever the unit; \<^verbatim>\<open>"12 bottles"\<close> parses to \<open>12\<close>.
\<close>

theorem parse_stock_first_token:
  "(CHR '' '' \<notin> set t \<and> py_int t = Some n \<longrightarrow>
      parse_stock (StrV (t @ '' '' @ unit)) = Inr (IntV n)) \<and>
   parse_stock (StrV (str_of_int n @ '' '' @ unit)) = Inr (IntV n) \<and>
   parse_stock (StrV ''12 bottles'') = Inr (IntV 12)"
proof (intro conjI impI)
  assume "CHR '' '' \<notin> set t \<and> py_int t = Some n"
  then show "parse_stock (StrV (t @ '' '' @ unit)) = Inr (IntV n)"
    using parse_stock_token [of t unit] by simp
next
  show "parse_stock (StrV (str_of_int n @ '' '' @ unit)) = Inr (IntV n)"
    using parse_stock_token [OF str_of_int_no_space, of n unit] by (simp add: py_int_str_of_int)
next
  show "parse_stock (StrV ''12 bottles'') = Inr (IntV 12)"
    by (simp add: parse_stock_def py_int_def strip_def is_space_def parse_literal_def
        is_digit_def digit_val_def)
qed

theorem parse_stock_first_token_witness:
  "CHR '' '' \<notin> set ''12'' \<and> py_int ''12'' = Some 12 \<and>
   parse_stock (StrV (''12'' @ '' '' @ ''bottles'')) = Inr (IntV 12)"
proof -
  have h: "CHR '' '' \<notin> set ''12'' \<and> py_int ''12'' = Some 12"
    by (simp add: py_int_def strip_def is_space_def parse_literal_def is_digit_def digit_val_def)
  with parse_stock_first_token [of "''12''" 12 "''bottles''"] show ?thesis
    by blast
qed

section \<open>The left join\<close>

lemma join_row_nonempty: "join_row i rr w l \<noteq> []"
  by (simp add: join_row_def split: list.splits)

lemma join_row_unmatched:
  "l ! i \<notin> fst ` set rr \<Longrightarrow> join_row i rr w l = [l @ replicate w NaN]"
proof -
  assume "l ! i \<notin> fst ` set rr"
  then have "filter (\<lambda>m. fst m = l ! i) rr = []"
    by (auto simp: filter_empty_conv image_iff)
  then show ?thesis
    by (simp add: join_row_def)
qed

lemma join_row_matched:
  assumes "(l ! i, p) \<in> set rr"
  shows "l @ p \<in> set (join_row i rr w l)"
proof -
  from assms have m: "(l ! i, p) \<in> set (filter (\<lambda>m. fst m = l ! i) rr)"
    by simp
  then obtain x xs where f: "filter (\<lambda>m. fst m = l ! i) rr = x # xs"
    by (cases "filter (\<lambda>m. fst m = l ! i) rr") auto
  with m have "l @ snd (l ! i, p) \<in> (\<lambda>m. l @ snd m) ` set (x # xs)"
    by (intro imageI) simp
  with f show ?thesis
    by (simp add: join_row_def)
qed

lemma join_row_elem:
  assumes "x \<in> set (join_row i rr w l)"
  shows "(x = l @ replicate w NaN \<and> l ! i \<notin> fst ` set rr) \<or> (\<exists>p. (l ! i, p) \<in> set rr \<and> x = l @ p)"
proof (cases "filter (\<lambda>m. fst m = l ! i) rr")
  case Nil
  then have "l ! i \<notin> fst ` set rr"
    by (auto simp: filter_empty_conv)
  with assms Nil show ?thesis
    by (simp add: join_row_def)
next
  case (Cons m ms)
  with assms have "x \<in> (\<lambda>m. l @ snd m) ` set (m # ms)"
    by (simp add: join_row_def)
  then obtain y where y: "y \<in> set (m # ms)" "x = l @ snd y"
    by blast
  with Cons have "y \<in> set (filter (\<lambda>m. fst m = l ! i) rr)"
    by simp
  then have "y \<in> set rr" "fst y = l ! i"
    by simp_all
  then have "(l ! i, snd y) \<in> set rr"
    by (metis prod.collapse)
  with y(2) show ?thesis
    by blast
qed

lemma filter_key_distinct:
  "distinct (map fst rr) \<Longrightarrow> length (filter (\<lambda>m. fst m = x) rr) \<le> 1"
proof (induction rr)
  case Nil
  then show ?case by simp
next
  case (Cons a rr)
  show ?case
  proof (cases "fst a = x")
    case True
    with Cons.prems have "filter (\<lambda>m. fst m = x) rr = []"
      by (auto simp: filter_empty_conv image_iff)
    with True show ?thesis
      by simp
  next
    case False
    with Cons show ?thesis
      by simp
  qed
qed

lemma join_row_length_ge: "1 \<le> length (join_row i rr w l)"
  by (simp add: join_row_def split: list.splits)

lemma join_row_length_distinct:
  "distinct (map fst rr) \<Longrightarrow> length (join_row i rr w l) = 1"
proof -
  assume "distinct (map fst rr)"
  then have "length (filter (\<lambda>m. fst m = l ! i) rr) \<le> 1"
    by (rule filter_key_distinct)
  then show ?thesis
    by (cases "filter (\<lambda>m. fst m = l ! i) rr") (simp_all add: join_row_def)
qed

lemma length_concat_join_ge:
  "length rows \<le> length (concat (map (join_row i rr w) rows))"
proof (induction rows)
  case Nil
  show ?case by simp
next
  case (Cons l rows)
  with join_row_length_ge [of i rr w l] show ?case by simp
qed

lemma length_concat_join_distinct:
  "distinct (map fst rr) \<Longrightarrow> length (concat (map (join_row i rr w) rows)) = length rows"
  by (induction rows) (simp_all add: join_row_length_distinct)

lemma length_promote_where [simp]: "length (promote_where f r) = length r"
  by (simp add: promote_where_def)

lemma promote_where_nth:
  "c < length r \<Longrightarrow> promote_where f r ! c = (if f c then promote_val (r ! c) else r ! c)"
  by (simp add: promote_where_def nth_enumerate_eq)

lemma promote_where_keeps:
  "c < length r \<Longrightarrow> \<not> is_int (r ! c) \<Longrightarrow> promote_where f r ! c = r ! c"
  by (simp add: promote_where_nth promote_val_id)

lemma right_part_keys: "map fst (right_part same j u rows) = map (\<lambda>r. r ! j) rows"
  by (simp add: right_part_def Let_def)

lemma right_part_nth:
  assumes "n < length rows"
  shows "\<exists>p. right_part same j u rows ! n = (rows ! n ! j, p) \<and>
     length p = length (drop_key same j (rows ! n)) \<and>
     (\<forall>c<length p. \<not> is_int (drop_key same j (rows ! n) ! c) \<longrightarrow>
        p ! c = drop_key same j (rows ! n) ! c)"
  using assms by (auto simp: right_part_def Let_def promote_where_keeps)

lemma length_right_part [simp]: "length (right_part same j u rows) = length rows"
  by (simp add: right_part_def Let_def)

lemma right_part_elem:
  assumes "(k, p) \<in> set (right_part same j u rows)"
  shows "\<exists>r\<in>set rows. k = r ! j \<and> length p = length (drop_key same j r) \<and>
     (\<forall>c<length p. \<not> is_int (drop_key same j r ! c) \<longrightarrow> p ! c = drop_key same j r ! c)"
proof -
  from assms obtain n where n: "n < length rows" "right_part same j u rows ! n = (k, p)"
    by (auto simp: in_set_conv_nth)
  with right_part_nth [OF n(1), of same j u] have
    "k = rows ! n ! j \<and> length p = length (drop_key same j (rows ! n)) \<and>
     (\<forall>c<length p. \<not> is_int (drop_key same j (rows ! n) ! c) \<longrightarrow>
        p ! c = drop_key same j (rows ! n) ! c)"
    by auto
  with n(1) show ?thesis
    by (intro bexI [of _ "rows ! n"]) auto
qed

lemma right_part_mem:
  assumes "r \<in> set rows"
  shows "\<exists>p. (r ! j, p) \<in> set (right_part same j u rows) \<and>
     length p = length (drop_key same j r) \<and>
     (\<forall>c<length p. \<not> is_int (drop_key same j r ! c) \<longrightarrow> p ! c = drop_key same j r ! c)"
proof -
  from assms obtain n where n: "n < length rows" "rows ! n = r"
    by (auto simp: in_set_conv_nth)
  from right_part_nth [OF n(1), of same j u] obtain p where
    p: "right_part same j u rows ! n = (r ! j, p)"
    "length p = length (drop_key same j r)"
    "\<forall>c<length p. \<not> is_int (drop_key same j r ! c) \<longrightarrow> p ! c = drop_key same j r ! c"
    using n(2) by auto
  from n(1) p(1) have "(r ! j, p) \<in> set (right_part same j u rows)"
    by (metis length_right_part nth_mem)
  with p show ?thesis
    by blast
qed

lemma add_suffix_disjoint: "set cols \<inter> set others = {} \<Longrightarrow> add_suffix sfx others cols = cols"
  by (auto simp: add_suffix_def intro!: map_idI)

lemma merge_left_Inr:
  assumes "merge_left left right a b = Inr out"
  shows "\<exists>i j. index_of a (columns left) = Some i \<and> index_of b (columns right) = Some j \<and>
     data out = concat (map (join_row i
        (right_part (a = b) j (list_ex (\<lambda>l. l ! i \<notin> set (map (\<lambda>r. r ! j) (data right))) (data left))
           (data right))
        (length (drop_key (a = b) j (columns right)))) (data left)) \<and>
     columns out = add_suffix ''_x'' (drop_key (a = b) j (columns right)) (columns left)
                   @ add_suffix ''_y'' (columns left) (drop_key (a = b) j (columns right)) \<and>
     index out = map int [0..<length (data out)]"
  using assms by (auto simp: merge_left_def Let_def split: option.splits)

lemma merge_left_total:
  "a \<in> set (columns left) \<Longrightarrow> b \<in> set (columns right) \<Longrightarrow> \<exists>out. merge_left left right a b = Inr out"
  by (auto simp: merge_left_def Let_def dest!: index_of_mem split: option.splits)

section \<open>The orders builder\<close>

lemma list4: "length r = 4 \<Longrightarrow> r = [r ! 0, r ! 1, r ! 2, r ! 3]"
  by (cases r; cases "tl r"; cases "tl (tl r)"; cases "tl (tl (tl r))") auto

lemma cleaned_orders_rows:
  assumes "cleaned_orders df" "r \<in> set (data df)"
  shows "length r = 4" "\<forall>v\<in>set r. \<not> is_int v"
proof -
  from assms show len: "length r = 4"
    by (auto simp: cleaned_orders_def wf_def list_all_iff orders_columns_def)
  from assms have "is_str (r ! 0) \<and> is_str (r ! 1) \<and> is_float (r ! 2) \<and> is_str (r ! 3)"
    by (auto simp: cleaned_orders_def list_all_iff)
  then have "\<forall>v\<in>set [r ! 0, r ! 1, r ! 2, r ! 3]. \<not> is_int v"
    by (auto simp: is_str_def is_float_def is_int_def split: val.splits)
  with list4 [OF len] show "\<forall>v\<in>set r. \<not> is_int v"
    by metis
qed

lemma create_index_value_rows:
  assumes "create_index_value df name = Inr df'" "r \<in> set (data df)"
  shows "\<exists>k. IntV k # r \<in> set (data df')"
proof -
  from assms(2) obtain n where n: "n < length (data df)" "data df ! n = r"
    by (auto simp: in_set_conv_nth)
  let ?ks = "[1..int (nrows df)]"
  have len: "length ?ks = length (data df)"
    by (simp add: nrows_def)
  from assms(1) have d: "data df' = map2 (\<lambda>k r. IntV k # r) ?ks (data df)"
    by (simp add: create_index_value_Inr)
  with n len have "data df' ! n = IntV (?ks ! n) # r" "n < length (data df')"
    by simp_all
  then show ?thesis
    by (metis nth_mem)
qed

lemma build_orders_rows:
  assumes b: "cleaned_orders df_budapest" and l: "cleaned_orders df_london"
    and n: "cleaned_orders df_ny" and d: "drinks_table df_drinks" and bars: "bars_table df_bars"
  shows "\<exists>df_orders u1 u2.
     build_orders_dataframe df_drinks df_bars df_budapest df_london df_ny = Inr df_orders \<and>
     columns df_orders = ''order_id'' # orders_columns
        @ [''drink_id'', ''cocktail_db_id'', ''glass_name'', ''bar_id''] \<and>
     map tl (data df_orders) =
       concat (map (join_row 3 (right_part True 1 u2 (data df_bars)) 1)
         (concat (map (join_row 1 (right_part True 2 u1 (data df_drinks)) 3)
            (data df_budapest @ data df_london @ data df_ny))))"
proof -
  have cols: "\<forall>df\<in>set [df_budapest, df_london, df_ny]. columns df = orders_columns"
    using b l n by (simp add: cleaned_orders_def)
  have rows: "\<forall>df\<in>set [df_budapest, df_london, df_ny]. \<forall>r\<in>set (data df).
      length r = length orders_columns \<and> (\<forall>v\<in>set r. \<not> is_int v)"
    using cleaned_orders_rows b l n by (auto simp: orders_columns_def)
  have "distinct orders_columns"
    by (simp add: orders_columns_def)
  from pd_concat_same_columns [OF _ cols this rows] obtain d0 where
    d0: "pd_concat [df_budapest, df_london, df_ny] = Inr d0" "columns d0 = orders_columns"
    "data d0 = data df_budapest @ data df_london @ data df_ny"
    by auto
  from d have dc: "columns df_drinks = ''drink_id'' # drinks_columns"
    by (simp add: drinks_table_def)
  from bars have bc: "columns df_bars = [''bar_id'', ''location'']"
    by (simp add: bars_table_def)
  have "''drink_name'' \<in> set (columns d0)" "''drink_name'' \<in> set (columns df_drinks)"
    by (simp_all add: d0(2) dc orders_columns_def drinks_columns_def)
  then obtain d1 where m1: "merge_left d0 df_drinks ''drink_name'' ''drink_name'' = Inr d1"
    using merge_left_total by blast
  from merge_left_Inr [OF m1] obtain i j u1 where
    ij: "index_of ''drink_name'' (columns d0) = Some i"
      "index_of ''drink_name'' (columns df_drinks) = Some j" and
    dd: "data d1 = concat (map (join_row i (right_part True j u1 (data df_drinks))
          (length (drop_key True j (columns df_drinks)))) (data d0))" and
    cc: "columns d1 = add_suffix ''_x'' (drop_key True j (columns df_drinks)) (columns d0)
          @ add_suffix ''_y'' (columns d0) (drop_key True j (columns df_drinks))"
    by auto
  from ij have "i = 1" "j = 2"
    by (simp_all add: d0(2) dc orders_columns_def drinks_columns_def)
  with dd cc have d1:
    "columns d1 = orders_columns @ [''drink_id'', ''cocktail_db_id'', ''glass_name'']"
    "data d1 = concat (map (join_row 1 (right_part True 2 u1 (data df_drinks)) 3) (data d0))"
    by (simp_all add: d0(2) dc orders_columns_def drinks_columns_def drop_key_def add_suffix_def
        numeral_3_eq_3)
  have "''location'' \<in> set (columns d1)" "''location'' \<in> set (columns df_bars)"
    by (simp_all add: d1(1) bc orders_columns_def)
  then obtain d2 where m2: "merge_left d1 df_bars ''location'' ''location'' = Inr d2"
    using merge_left_total by blast
  from merge_left_Inr [OF m2] obtain i' j' u2 where
    ij': "index_of ''location'' (columns d1) = Some i'"
      "index_of ''location'' (columns df_bars) = Some j'" and
    dd': "data d2 = concat (map (join_row i' (right_part True j' u2 (data df_bars))
          (length (drop_key True j' (columns df_bars)))) (data d1))" and
    cc': "columns d2 = add_suffix ''_x'' (drop_key True j' (columns df_bars)) (columns d1)
          @ add_suffix ''_y'' (columns d1) (drop_key True j' (columns df_bars))"
    by auto
  from ij' have "i' = 3" "j' = 1"
    by (simp_all add: d1(1) bc orders_columns_def)
  with dd' cc' have d2:
    "columns d2 = orders_columns @ [''drink_id'', ''cocktail_db_id'', ''glass_name'', ''bar_id'']"
    "data d2 = concat (map (join_row 3 (right_part True 1 u2 (data df_bars)) 1) (data d1))"
    by (simp_all add: d1(1) bc orders_columns_def drop_key_def add_suffix_def numeral_3_eq_3)
  have "''order_id'' \<notin> set (columns d2)"
    by (simp add: d2(1) orders_columns_def)
  then obtain df_orders where o: "create_index_value d2 ''order_id'' = Inr df_orders"
    by (auto simp: create_index_value_Inr)
  have "build_orders_dataframe df_drinks df_bars df_budapest df_london df_ny = Inr df_orders"
    by (simp add: build_orders_dataframe_def d0(1) m1 m2 o)
  moreover from create_index_value_data [OF o]
  have "columns df_orders = ''order_id'' # orders_columns
        @ [''drink_id'', ''cocktail_db_id'', ''glass_name'', ''bar_id'']"
    "map tl (data df_orders) =
       concat (map (join_row 3 (right_part True 1 u2 (data df_bars)) 1)
         (concat (map (join_row 1 (right_part True 2 u1 (data df_drinks)) 3)
            (data df_budapest @ data df_london @ data df_ny))))"
    by (simp_all add: d2 d1(2) d0(3))
  ultimately show ?thesis
    by blast
qed


lemma create_index_value_nonempty:
  assumes "create_index_value df name = Inr df'" "out \<in> set (data df')"
  shows "out \<noteq> []"
  using assms by (auto simp: create_index_value_Inr in_set_zip)

lemma build_orders_nonempty_rows:
  assumes "build_orders_dataframe df_drinks df_bars df_budapest df_london df_ny = Inr df_orders"
    "out \<in> set (data df_orders)"
  shows "out \<noteq> []"
  using assms create_index_value_nonempty
  by (fastforce simp: build_orders_dataframe_def then_do_Inr)

lemma drinks_table_names:
  assumes "drinks_table df"
  shows "col df ''drink_name'' = Some (map (\<lambda>r. r ! 2) (data df))"
    and "\<And>d. cell (columns df) d ''drink_name'' = Some (d ! 2)"
  using assms by (simp_all add: drinks_table_def drinks_columns_def col_def cell_def numeral_2_eq_2)

lemma bars_table_locations:
  assumes "bars_table df"
  shows "col df ''location'' = Some (map (\<lambda>r. r ! 1) (data df))"
  using assms by (simp add: bars_table_def col_def)

lemma example_tables:
  "cleaned_orders example_orders" "cleaned_orders no_orders" "cleaned_orders one_order"
  "drinks_table example_drinks" "drinks_table twin_drinks" "bars_table build_bars_dataframe"
  by (simp_all add: cleaned_orders_def drinks_table_def bars_table_def wf_def DataFrame_def
      example_orders_def no_orders_def one_order_def example_drinks_def twin_drinks_def
      build_bars_dataframe_def orders_columns_def drinks_columns_def is_str_def is_float_def)


text \<open>
  C1. For cleaned order sets, a drinks table and a bars table, the orders builder
  returns (the joins raise nothing), and every row of the concatenated sets whose drink
  name is the name of no row of the drinks table is in the orders table, with its four
  cells and a missing \<^verbatim>\<open>drink_id\<close>.
\<close>

theorem unmatched_drink_kept_with_null_id:
  assumes "cleaned_orders df_budapest" and "cleaned_orders df_london" and "cleaned_orders df_ny"
    and "drinks_table df_drinks" and "bars_table df_bars"
  shows "\<exists>df_orders.
     build_orders_dataframe df_drinks df_bars df_budapest df_london df_ny = Inr df_orders \<and>
     (\<forall>row\<in>set (data df_budapest @ data df_london @ data df_ny).
        (\<forall>d\<in>set (data df_drinks).
           cell (columns df_drinks) d ''drink_name'' \<noteq> cell orders_columns row ''drink_name'') \<longrightarrow>
        (\<exists>out\<in>set (data df_orders).
           (\<forall>c\<in>set orders_columns. cell (columns df_orders) out c = cell orders_columns row c) \<and>
           cell (columns df_orders) out ''drink_id'' = Some NaN))"
proof -
  from build_orders_rows [OF assms] obtain df_orders u1 u2 where
    ok: "build_orders_dataframe df_drinks df_bars df_budapest df_london df_ny = Inr df_orders" and
    cols: "columns df_orders = ''order_id'' # orders_columns
        @ [''drink_id'', ''cocktail_db_id'', ''glass_name'', ''bar_id'']" and
    rows: "map tl (data df_orders) =
       concat (map (join_row 3 (right_part True 1 u2 (data df_bars)) 1)
         (concat (map (join_row 1 (right_part True 2 u1 (data df_drinks)) 3)
            (data df_budapest @ data df_london @ data df_ny))))"
    by blast
  let ?rows0 = "data df_budapest @ data df_london @ data df_ny"
  let ?rr1 = "right_part True 2 u1 (data df_drinks)"
  let ?rr2 = "right_part True 1 u2 (data df_bars)"
  have "\<exists>out\<in>set (data df_orders).
           (\<forall>c\<in>set orders_columns. cell (columns df_orders) out c = cell orders_columns row c) \<and>
           cell (columns df_orders) out ''drink_id'' = Some NaN"
    if row: "row \<in> set ?rows0"
      and un: "\<forall>d\<in>set (data df_drinks).
           cell (columns df_drinks) d ''drink_name'' \<noteq> cell orders_columns row ''drink_name''"
    for row
  proof -
    from row assms(1-3) have len: "length row = 4"
      using cleaned_orders_rows(1) by auto
    have c1: "cell orders_columns row ''drink_name'' = Some (row ! 1)"
      by (simp add: cell_def orders_columns_def)
    from un have "\<forall>d\<in>set (data df_drinks). d ! 2 \<noteq> row ! 1"
      by (simp add: drinks_table_names(2) [OF assms(4)] c1)
    then have "row ! 1 \<notin> fst ` set ?rr1"
      using right_part_keys [of True 2 u1 "data df_drinks"] by (metis (no_types, lifting) image_iff list.set_map)
    then have "join_row 1 ?rr1 3 row = [row @ replicate 3 NaN]"
      by (rule join_row_unmatched)
    with row have l1: "row @ replicate 3 NaN \<in> set (concat (map (join_row 1 ?rr1 3) ?rows0))"
      by force
    obtain x where x: "x \<in> set (join_row 3 ?rr2 1 (row @ replicate 3 NaN))"
      using join_row_nonempty [of 3 ?rr2 1 "row @ replicate 3 NaN"]
      by (meson last_in_set)
    with join_row_elem [OF x] obtain p where p: "x = (row @ replicate 3 NaN) @ p"
      by blast
    from x l1 have "x \<in> set (map tl (data df_orders))"
      unfolding rows by auto
    then obtain out where out: "out \<in> set (data df_orders)" "tl out = x"
      by auto
    with build_orders_nonempty_rows [OF ok out(1)] obtain h where
      "out = h # row @ replicate 3 NaN @ p"
      using p by (cases out) auto
    with len have "(\<forall>c\<in>set orders_columns. cell (columns df_orders) out c = cell orders_columns row c) \<and>
           cell (columns df_orders) out ''drink_id'' = Some NaN"
      by (auto simp: cols orders_columns_def cell_def nth_append numeral_3_eq_3 numeral_2_eq_2)
    with out(1) show ?thesis
      by blast
  qed
  with ok show ?thesis
    by blast
qed


theorem unmatched_drink_kept_with_null_id_witness:
  "cleaned_orders example_orders \<and> cleaned_orders no_orders \<and> drinks_table example_drinks \<and>
   bars_table build_bars_dataframe \<and>
   (\<exists>df_orders.
      build_orders_dataframe example_drinks build_bars_dataframe example_orders no_orders no_orders
        = Inr df_orders \<and>
      (\<exists>out\<in>set (data df_orders).
         cell (columns df_orders) out ''drink_name'' = Some (StrV ''negroni'') \<and>
         cell (columns df_orders) out ''order_amount'' = Some (FloatV (19 / 2)) \<and>
         cell (columns df_orders) out ''drink_id'' = Some NaN))"
proof -
  let ?row = "[StrV ''2022-03-01 18:20:00'', StrV ''negroni'', FloatV (19 / 2), StrV ''london'']"
  have row: "?row \<in> set (data example_orders @ data no_orders @ data no_orders)"
    by (simp add: example_orders_def DataFrame_def)
  have un: "\<forall>d\<in>set (data example_drinks).
      cell (columns example_drinks) d ''drink_name'' \<noteq> cell orders_columns ?row ''drink_name''"
    by (simp add: example_drinks_def cell_def orders_columns_def)
  have cells: "cell orders_columns ?row ''drink_name'' = Some (StrV ''negroni'')"
    "cell orders_columns ?row ''order_amount'' = Some (FloatV (19 / 2))"
    "''drink_name'' \<in> set orders_columns" "''order_amount'' \<in> set orders_columns"
    by (simp_all add: cell_def orders_columns_def)
  from unmatched_drink_kept_with_null_id [OF example_tables(1,2,2,4,6)] obtain df_orders where
    ok: "build_orders_dataframe example_drinks build_bars_dataframe example_orders no_orders no_orders
        = Inr df_orders" and
    all: "\<forall>row\<in>set (data example_orders @ data no_orders @ data no_orders).
        (\<forall>d\<in>set (data example_drinks).
           cell (columns example_drinks) d ''drink_name'' \<noteq> cell orders_columns row ''drink_name'') \<longrightarrow>
        (\<exists>out\<in>set (data df_orders).
           (\<forall>c\<in>set orders_columns. cell (columns df_orders) out c = cell orders_columns row c) \<and>
           cell (columns df_orders) out ''drink_id'' = Some NaN)"
    by blast
  from all row un obtain out where out: "out \<in> set (data df_orders)"
    "\<forall>c\<in>set orders_columns. cell (columns df_orders) out c = cell orders_columns ?row c"
    "cell (columns df_orders) out ''drink_id'' = Some NaN"
    by blast
  from out(2) cells have "cell (columns df_orders) out ''drink_name'' = Some (StrV ''negroni'')"
    "cell (columns df_orders) out ''order_amount'' = Some (FloatV (19 / 2))"
    by metis+
  with ok out(1,3) example_tables show ?thesis
    by blast
qed

text \<open>
  C5, as stated, fails: a left join repeats a left row for every right row with its
  key. With two drinks named \<^verbatim>\<open>mojito\<close> in the drinks table, one order of a mojito
  (and two empty sets) gives an orders table of two rows.
\<close>

theorem orders_row_count_counterexample:
  "cleaned_orders one_order \<and> cleaned_orders no_orders \<and> drinks_table twin_drinks \<and>
   bars_table build_bars_dataframe \<and>
   map_sum id nrows (build_orders_dataframe twin_drinks build_bars_dataframe one_order no_orders no_orders)
     = Inr 2 \<and>
   nrows one_order + nrows no_orders + nrows no_orders = 1"
proof -
  have "map_sum id nrows
      (build_orders_dataframe twin_drinks build_bars_dataframe one_order no_orders no_orders) = Inr 2"
    by code_simp
  moreover have "nrows one_order + nrows no_orders + nrows no_orders = 1"
    by (simp add: nrows_def one_order_def no_orders_def DataFrame_def)
  ultimately show ?thesis
    using example_tables by simp
qed

text \<open>
  C5, amended. For cleaned order sets, a drinks table and a bars table, the orders
  builder returns, and the orders table has at least as many rows as the three sets
  together; it has exactly as many when no drink name occurs twice in the drinks table
  and no location twice in the bars table.
\<close>

theorem orders_row_count:
  assumes "cleaned_orders df_budapest" and "cleaned_orders df_london" and "cleaned_orders df_ny"
    and "drinks_table df_drinks" and "bars_table df_bars"
  shows "\<exists>df_orders.
     build_orders_dataframe df_drinks df_bars df_budapest df_london df_ny = Inr df_orders \<and>
     nrows df_budapest + nrows df_london + nrows df_ny \<le> nrows df_orders \<and>
     (\<forall>names locations.
        col df_drinks ''drink_name'' = Some names \<and> distinct names \<and>
        col df_bars ''location'' = Some locations \<and> distinct locations \<longrightarrow>
        nrows df_orders = nrows df_budapest + nrows df_london + nrows df_ny)"
proof -
  from build_orders_rows [OF assms] obtain df_orders u1 u2 where
    ok: "build_orders_dataframe df_drinks df_bars df_budapest df_london df_ny = Inr df_orders" and
    rows: "map tl (data df_orders) =
       concat (map (join_row 3 (right_part True 1 u2 (data df_bars)) 1)
         (concat (map (join_row 1 (right_part True 2 u1 (data df_drinks)) 3)
            (data df_budapest @ data df_london @ data df_ny))))"
    by blast
  let ?rr1 = "right_part True 2 u1 (data df_drinks)"
  let ?rr2 = "right_part True 1 u2 (data df_bars)"
  define rows0 where "rows0 = data df_budapest @ data df_london @ data df_ny"
  define rows1 where "rows1 = concat (map (join_row 1 ?rr1 3) rows0)"
  define rows2 where "rows2 = concat (map (join_row 3 ?rr2 1) rows1)"
  have "map tl (data df_orders) = rows2"
    unfolding rows2_def rows1_def rows0_def by (rule rows)
  from arg_cong [OF this, of length] have n: "nrows df_orders = length rows2"
    by (simp add: nrows_def)
  have n0: "length rows0 = nrows df_budapest + nrows df_london + nrows df_ny"
    by (simp add: rows0_def nrows_def)
  have "length rows0 \<le> length rows1"
    unfolding rows1_def by (rule length_concat_join_ge)
  also have "\<dots> \<le> length rows2"
    unfolding rows2_def by (rule length_concat_join_ge)
  finally have ge: "nrows df_budapest + nrows df_london + nrows df_ny \<le> nrows df_orders"
    by (simp only: n n0)
  have eq: "nrows df_orders = nrows df_budapest + nrows df_london + nrows df_ny"
    if "col df_drinks ''drink_name'' = Some names" "distinct names"
      "col df_bars ''location'' = Some locations" "distinct locations" for names locations
  proof -
    from that drinks_table_names(1) [OF assms(4)] bars_table_locations [OF assms(5)]
    have "distinct (map fst ?rr1)" "distinct (map fst ?rr2)"
      by (simp_all add: right_part_keys)
    then have "length rows2 = length rows0"
      unfolding rows2_def rows1_def by (simp only: length_concat_join_distinct)
    then show ?thesis
      by (simp only: n n0)
  qed
  from ok ge eq show ?thesis
    by blast
qed

theorem orders_row_count_witness:
  "cleaned_orders example_orders \<and> cleaned_orders no_orders \<and> drinks_table example_drinks \<and>
   bars_table build_bars_dataframe \<and>
   col example_drinks ''drink_name''
     = Some [StrV ''a1'', StrV ''mojito'', StrV ''moscow mule'', StrV ''mai tai''] \<and>
   col build_bars_dataframe ''location''
     = Some [StrV ''budapest'', StrV ''new york'', StrV ''london''] \<and>
   (\<exists>df_orders.
      build_orders_dataframe example_drinks build_bars_dataframe example_orders no_orders example_orders
        = Inr df_orders \<and>
      nrows df_orders = 4)"
proof -
  have names: "col example_drinks ''drink_name''
     = Some [StrV ''a1'', StrV ''mojito'', StrV ''moscow mule'', StrV ''mai tai'']"
    by (simp add: col_def example_drinks_def)
  have locations: "col build_bars_dataframe ''location''
     = Some [StrV ''budapest'', StrV ''new york'', StrV ''london'']"
    by (simp add: col_def build_bars_dataframe_def DataFrame_def)
  have n: "nrows example_orders + nrows no_orders + nrows example_orders = 4"
    by (simp add: nrows_def example_orders_def no_orders_def DataFrame_def)
  from orders_row_count [OF example_tables(1,2,1,4,6)] obtain df_orders where
    "build_orders_dataframe example_drinks build_bars_dataframe example_orders no_orders example_orders
        = Inr df_orders"
    "\<forall>names locations.
        col example_drinks ''drink_name'' = Some names \<and> distinct names \<and>
        col build_bars_dataframe ''location'' = Some locations \<and> distinct locations \<longrightarrow>
        nrows df_orders = nrows example_orders + nrows no_orders + nrows example_orders"
    by blast
  with names locations n have "build_orders_dataframe example_drinks build_bars_dataframe
      example_orders no_orders example_orders = Inr df_orders \<and> nrows df_orders = 4"
    by simp
  with names locations example_tables show ?thesis
    by blast
qed

section \<open>The glasses builder\<close>

lemma keep_first_by_set:
  "set (map key (keep_first_by key seen xs)) = set (map key xs) - set seen"
  by (induction xs arbitrary: seen) auto

lemma keep_first_by_distinct: "distinct (map key (keep_first_by key seen xs))"
  by (induction xs arbitrary: seen) (auto simp: keep_first_by_set simp flip: set_map)

lemma keep_first_by_subset: "set (keep_first_by key seen xs) \<subseteq> set xs"
  by (induction xs arbitrary: seen) auto

lemma sorted_distinct_is_sorted_list_of_set:
  fixes xs :: "'a::linorder list"
  shows "sorted xs \<Longrightarrow> distinct xs \<Longrightarrow> xs = sorted_list_of_set (set xs)"
  by (simp add: sorted_list_of_set.idem_if_sorted_distinct)

lemma create_index_value_col_other:
  assumes "create_index_value df name = Inr df'" "c \<noteq> name"
  shows "col df' c = col df c"
proof -
  let ?ks = "[1..int (nrows df)]"
  have len: "length ?ks = length (data df)"
    by (simp add: nrows_def)
  have "map (\<lambda>r. r ! Suc i) (map2 (\<lambda>k r. IntV k # r) ks rs) = map (\<lambda>r. r ! i) rs"
    if "length ks = length rs" for ks rs i
    using that by (induction ks rs rule: list_induct2) simp_all
  from this [OF len] assms show ?thesis
    by (cases "index_of c (columns df)") (auto simp: create_index_value_Inr col_def)
qed

lemma create_index_value_index_length:
  assumes "create_index_value df name = Inr df'"
  shows "length (index df') = length (data df')"
  using assms by (simp add: create_index_value_Inr nrows_def)

lemma build_glasses_names:
  assumes len: "length (index df_drinks) = length (data df_drinks)"
    and names: "col df_drinks ''glass_name'' = Some (map StrV names)"
  shows "\<exists>df_glasses. build_glasses_dataframe df_drinks = Inr df_glasses \<and>
     columns df_glasses = [''glass_id'', ''glass_name''] \<and>
     col df_glasses ''glass_id'' = Some (map IntV [1..int (card (set names))]) \<and>
     col df_glasses ''glass_name'' = Some (map StrV (sorted_list_of_set (set names)))"
proof -
  from names obtain i where i: "index_of ''glass_name'' (columns df_drinks) = Some i"
    and cells: "map (\<lambda>r. r ! i) (data df_drinks) = map StrV names"
    by (auto simp: col_def)
  define p where "p = df_drinks\<lparr>columns := [''glass_name''],
    data := map (\<lambda>s. [StrV s]) names\<rparr>"
  have "map (\<lambda>r. map ((!) r) [i]) (data df_drinks) = map (\<lambda>s. [StrV s]) names"
    using arg_cong [OF cells, of "map (\<lambda>v. [v])"] by (simp add: comp_def)
  with i have proj: "project [''glass_name''] df_drinks = Inr p"
    unfolding project_Inr p_def by (intro exI [of _ "[i]"]) simp
  define key :: "int \<times> val list \<Rightarrow> string" where "key = (\<lambda>(l, r). the_str (r ! 0))"
  define zipped where "zipped = zip (index df_drinks) (map (\<lambda>s. [StrV s]) names)"
  define kept where "kept = keep_first_by snd [] zipped"
  have lz: "length (index df_drinks) = length names"
    using arg_cong [OF cells, of length] len by simp
  have shape: "\<exists>s. snd x = [StrV s]" if "x \<in> set kept" for x
  proof -
    from that have "x \<in> set zipped"
      using keep_first_by_subset [of snd "[]" zipped] by (auto simp: kept_def)
    then have "snd x \<in> set (map (\<lambda>s. [StrV s]) names)"
      unfolding zipped_def by (metis in_set_zipE prod.collapse)
    then show ?thesis by auto
  qed
  have snd_key: "snd x = [StrV (key x)]" if "x \<in> set kept" for x
    using shape [OF that] by (cases x) (auto simp: key_def the_str_def)
  have dd: "drop_duplicates p = with_rows p kept"
    by (simp add: drop_duplicates_def p_def kept_def zipped_def)
  have keys_set: "set (map key kept) = set names"
  proof -
    have "set (map snd kept) = set (map snd zipped)"
      unfolding kept_def by (simp add: keep_first_by_set del: set_map)
    also have "map snd zipped = map (\<lambda>s. [StrV s]) names"
      unfolding zipped_def using lz by simp
    finally have "(\<lambda>x. [StrV (key x)]) ` set kept = (\<lambda>s. [StrV s]) ` set names"
      using snd_key by (auto simp: image_iff)
    then have "(\<lambda>s. [StrV s]) ` key ` set kept = (\<lambda>s. [StrV s]) ` set names"
      by (simp add: image_image)
    moreover have "inj (\<lambda>s. [StrV s])"
      by (simp add: inj_def)
    ultimately have "key ` set kept = set names"
      by (simp add: inj_image_eq_iff)
    then show ?thesis
      by simp
  qed
  have keys_distinct: "distinct (map key kept)"
  proof -
    have "distinct (map snd kept)"
      unfolding kept_def by (rule keep_first_by_distinct)
    moreover have "map snd kept = map (\<lambda>x. [StrV (key x)]) kept"
      using snd_key by (auto intro: map_cong)
    ultimately have "distinct (map ((\<lambda>s. [StrV s]) \<circ> key) kept)"
      by (simp add: comp_def)
    then show ?thesis
      by (simp add: distinct_map flip: map_map)
  qed
  define sorted_rows where "sorted_rows = sort_key key kept"
  have all_str: "list_all (\<lambda>(l, r). is_str (r ! 0)) kept"
    using shape by (fastforce simp: list_all_iff is_str_def)
  have present: "filter (\<lambda>(l, r). r ! 0 \<noteq> NaN) kept = kept"
    using shape by (fastforce simp: filter_id_conv)
  have missing: "filter (\<lambda>(l, r). r ! 0 = NaN) kept = []"
    using shape by (fastforce simp: filter_empty_conv)
  have zk: "zip (map fst kept) (map snd kept) = kept"
    by (simp add: zip_map_fst_snd)
  have sv: "sort_values ''glass_name'' (drop_duplicates p) = Inr (with_rows p sorted_rows)"
    unfolding dd
    by (simp add: sort_values_def with_rows_def p_def zk present missing all_str
        sorted_rows_def key_def)
  have sk: "map key sorted_rows = sorted_list_of_set (set names)"
  proof -
    have "sorted (map key sorted_rows)"
      unfolding sorted_rows_def by (rule sorted_sort_key)
    moreover have "distinct (map key sorted_rows)"
      using keys_distinct unfolding sorted_rows_def by (simp add: distinct_map)
    moreover have "set (map key sorted_rows) = set names"
      using keys_set unfolding sorted_rows_def by simp
    ultimately show ?thesis
      using sorted_distinct_is_sorted_list_of_set by metis
  qed
  have sd: "map snd sorted_rows = map (\<lambda>s. [StrV s]) (sorted_list_of_set (set names))"
  proof -
    have "map snd sorted_rows = map (\<lambda>x. [StrV (key x)]) sorted_rows"
      using snd_key unfolding sorted_rows_def by (auto intro: map_cong)
    also have "\<dots> = map (\<lambda>s. [StrV s]) (map key sorted_rows)"
      by simp
    finally show ?thesis
      by (simp only: sk)
  qed
  define q where "q = with_rows p sorted_rows"
  have qc: "columns q = [''glass_name'']" "data q = map (\<lambda>s. [StrV s]) (sorted_list_of_set (set names))"
    by (simp_all add: q_def with_rows_def p_def sd)
  then obtain df_glasses where g: "create_index_value q ''glass_id'' = Inr df_glasses"
    by (auto simp: create_index_value_Inr)
  have nq: "nrows q = card (set names)"
    by (simp add: nrows_def qc)
  have "col q ''glass_name'' = Some (map StrV (sorted_list_of_set (set names)))"
    by (simp add: col_def qc comp_def)
  with create_index_value_col_other [OF g, of "''glass_name''"]
  have "col df_glasses ''glass_name'' = Some (map StrV (sorted_list_of_set (set names)))"
    by simp
  moreover from create_index_value_col [OF g] nq
  have "col df_glasses ''glass_id'' = Some (map IntV [1..int (card (set names))])"
    by simp
  moreover from create_index_value_data(3) [OF g] qc(1)
  have "columns df_glasses = [''glass_id'', ''glass_name'']"
    by simp
  moreover have "build_glasses_dataframe df_drinks = Inr df_glasses"
    by (simp add: build_glasses_dataframe_def proj sv g [unfolded q_def])
  ultimately show ?thesis
    by blast
qed


lemma build_drinks_glass_names:
  assumes "build_drinks_dataframe api = Inr df_drinks"
  shows "\<exists>names. col df_drinks ''glass_name'' = Some (map StrV names) \<and>
     length (index df_drinks) = length (data df_drinks) \<and>
     (\<forall>n\<in>set names. \<exists>g. n = lower g) \<and>
     (\<forall>letter\<in>set ascii_lowercase. \<forall>entries. api (search_url letter) = Inr (Some entries) \<longrightarrow>
        (\<forall>e\<in>set entries. \<forall>g. map_of e ''strGlass'' = Some (JString g) \<longrightarrow> lower g \<in> set names))"
proof -
  define dfs where "dfs = concat (map (letter_tables api) ascii_lowercase)"
  from assms obtain d where
    loop: "letters_loop api ascii_lowercase [] = Inr dfs" and
    cat: "pd_concat dfs = Inr d" and
    idx: "create_index_value d ''drink_id'' = Inr df_drinks"
    by (auto simp: build_drinks_dataframe_def then_do_Inr letters_loop_Inr dfs_def)
  from cat have ne: "dfs \<noteq> []"
    by (auto simp: pd_concat_empty)
  have fr: "\<forall>df\<in>set dfs. columns df = drinks_columns"
    "\<forall>df\<in>set dfs. \<forall>r\<in>set (data df). length r = length drinks_columns \<and> (\<forall>v\<in>set r. \<not> is_int v)"
    using letter_tables_frame by (auto simp: dfs_def)
  have "distinct drinks_columns"
    by (simp add: drinks_columns_def)
  from pd_concat_same_columns [OF ne fr(1) this fr(2)] cat
  have d: "columns d = drinks_columns" "data d = concat (map data dfs)"
    by auto
  define rows where "rows = concat (map data dfs)"
  define names where "names = map (\<lambda>r. the_str (r ! 2)) rows"
  have row_shape: "\<exists>a b g. r = [StrV a, StrV b, StrV (lower g)]" if "r \<in> set rows" for r
  proof -
    from that obtain df where df: "df \<in> set dfs" "r \<in> set (data df)"
      by (auto simp: rows_def)
    then obtain letter where "get_drinks_data api (search_url letter) = Inr (Some df)"
      by (auto simp: dfs_def letter_tables_def split: sum.splits option.splits)
    from get_drinks_data_Some [OF this] obtain entries where
      "list_all2 (\<lambda>e r. \<exists>i n g. map_of e ''idDrink'' = Some (JString i) \<and>
                        map_of e ''strDrink'' = Some (JString n) \<and>
                        map_of e ''strGlass'' = Some (JString g) \<and>
                        r = [StrV (lower i), StrV (lower n), StrV (lower g)]) entries (data df)"
      by blast
    with df(2) show ?thesis
      by (fastforce simp: list_all2_conv_all_nth in_set_conv_nth)
  qed
  have "map (\<lambda>r. r ! 2) rows = map StrV names"
    unfolding names_def using row_shape by (fastforce simp: the_str_def)
  then have "col d ''glass_name'' = Some (map StrV names)"
    by (simp add: col_def d drinks_columns_def rows_def numeral_2_eq_2)
  with create_index_value_col_other [OF idx, of "''glass_name''"]
  have c: "col df_drinks ''glass_name'' = Some (map StrV names)"
    by simp
  have low: "\<forall>n\<in>set names. \<exists>g. n = lower g"
    unfolding names_def using row_shape by (fastforce simp: the_str_def)
  have "lower g \<in> set names"
    if "letter \<in> set ascii_lowercase" "api (search_url letter) = Inr (Some entries)"
      "e \<in> set entries" "map_of e ''strGlass'' = Some (JString g)" for letter entries e g
  proof -
    from loop that(1) have "\<not> isl (get_drinks_data api (search_url letter))"
      by (simp add: letters_loop_Inr)
    moreover from that(2) have "get_drinks_data api (search_url letter) \<noteq> Inr None"
      by (simp add: get_drinks_data_null_iff)
    ultimately obtain df where g: "get_drinks_data api (search_url letter) = Inr (Some df)"
      by (cases "get_drinks_data api (search_url letter)") auto
    with that(1) have mem: "df \<in> set dfs"
      by (auto simp: dfs_def letter_tables_def intro!: bexI [of _ letter])
    from get_drinks_data_Some [OF g] that(2) have
      "list_all2 (\<lambda>e r. \<exists>i n g. map_of e ''idDrink'' = Some (JString i) \<and>
                        map_of e ''strDrink'' = Some (JString n) \<and>
                        map_of e ''strGlass'' = Some (JString g) \<and>
                        r = [StrV (lower i), StrV (lower n), StrV (lower g)]) entries (data df)"
      by auto
    with that(3,4) obtain r a b where "r \<in> set (data df)" "r = [StrV a, StrV b, StrV (lower g)]"
      by (fastforce simp: list_all2_conv_all_nth in_set_conv_nth)
    with mem have "r \<in> set rows" "the_str (r ! 2) = lower g"
      by (auto simp: rows_def the_str_def)
    then show ?thesis
      unfolding names_def by force
  qed
  with c low create_index_value_index_length [OF idx] show ?thesis
    by blast
qed

lemma count_list_distinct: "distinct xs \<Longrightarrow> x \<in> set xs \<Longrightarrow> count_list xs x = 1"
  by (induction xs) auto

text \<open>
  C6. When the drinks builder returns the drinks table, the glasses builder returns
  the glasses table: with \<open>names\<close> the glass names of the drinks table, its
  \<^verbatim>\<open>glass_name\<close> column is the list of the distinct names in ascending lexicographic
  order and its \<^verbatim>\<open>glass_id\<close> column counts them from 1. The names were lowercased
  when they were fetched: for every glass name \<open>g\<close> of a catalog entry, the lowercased
  \<open>g\<close> is in exactly one row of the glasses table, so names that differ only in
  letter case share one row.
\<close>

theorem glasses_distinct_sorted_lowercase:
  assumes "build_drinks_dataframe api = Inr df_drinks"
  shows "\<exists>df_glasses names.
     build_glasses_dataframe df_drinks = Inr df_glasses \<and>
     col df_drinks ''glass_name'' = Some (map StrV names) \<and>
     columns df_glasses = [''glass_id'', ''glass_name''] \<and>
     col df_glasses ''glass_id'' = Some (map IntV [1..int (card (set names))]) \<and>
     col df_glasses ''glass_name'' = Some (map StrV (sorted_list_of_set (set names))) \<and>
     (\<forall>letter\<in>set ascii_lowercase. \<forall>entries. api (search_url letter) = Inr (Some entries) \<longrightarrow>
        (\<forall>e\<in>set entries. \<forall>g. map_of e ''strGlass'' = Some (JString g) \<longrightarrow>
           count_list (map StrV (sorted_list_of_set (set names))) (StrV (lower g)) = 1))"
proof -
  from build_drinks_glass_names [OF assms] obtain names where
    names: "col df_drinks ''glass_name'' = Some (map StrV names)" and
    len: "length (index df_drinks) = length (data df_drinks)" and
    raw: "\<forall>letter\<in>set ascii_lowercase. \<forall>entries. api (search_url letter) = Inr (Some entries) \<longrightarrow>
        (\<forall>e\<in>set entries. \<forall>g. map_of e ''strGlass'' = Some (JString g) \<longrightarrow> lower g \<in> set names)"
    by blast
  from build_glasses_names [OF len names] obtain df_glasses where
    g: "build_glasses_dataframe df_drinks = Inr df_glasses"
      "columns df_glasses = [''glass_id'', ''glass_name'']"
      "col df_glasses ''glass_id'' = Some (map IntV [1..int (card (set names))])"
      "col df_glasses ''glass_name'' = Some (map StrV (sorted_list_of_set (set names)))"
    by blast
  have "count_list (map StrV (sorted_list_of_set (set names))) (StrV n) = 1" if "n \<in> set names" for n
  proof -
    have "distinct (map StrV (sorted_list_of_set (set names)))"
      by (simp add: distinct_map inj_on_def)
    moreover from that have "StrV n \<in> set (map StrV (sorted_list_of_set (set names)))"
      by simp
    ultimately show ?thesis
      by (rule count_list_distinct)
  qed
  with raw names g show ?thesis
    by blast
qed


theorem glasses_distinct_sorted_lowercase_witness:
  "build_drinks_dataframe example_catalog = Inr example_drinks \<and>
   lower ''Highball glass'' = lower ''Highball Glass'' \<and>
   (\<exists>df_glasses. build_glasses_dataframe example_drinks = Inr df_glasses \<and>
      col df_glasses ''glass_id'' = Some [IntV 1, IntV 2, IntV 3] \<and>
      col df_glasses ''glass_name''
        = Some [StrV ''cocktail glass'', StrV ''copper mug'', StrV ''highball glass''])"
proof -
  let ?names = "[''cocktail glass'', ''highball glass'', ''copper mug'', ''highball glass'']"
  from glasses_distinct_sorted_lowercase [OF example_catalog_drinks] obtain df_glasses names where
    g: "build_glasses_dataframe example_drinks = Inr df_glasses"
      "col example_drinks ''glass_name'' = Some (map StrV names)"
      "col df_glasses ''glass_id'' = Some (map IntV [1..int (card (set names))])"
      "col df_glasses ''glass_name'' = Some (map StrV (sorted_list_of_set (set names)))"
    by blast
  have "col example_drinks ''glass_name'' = Some (map StrV ?names)"
    by (simp add: col_def example_drinks_def)
  with g(2) have "map StrV names = map StrV ?names"
    by simp
  then have names: "names = ?names"
    by (rule map_injective) (simp add: inj_def)
  have s: "sorted_list_of_set (set ?names) = [''cocktail glass'', ''copper mug'', ''highball glass'']"
    by code_simp
  have c: "card (set ?names) = 3"
    by (subst card_set) simp
  have l: "lower ''Highball glass'' = lower ''Highball Glass''"
    by (simp add: lower_def lower_char_def)
  from g(3,4) have "col df_glasses ''glass_id'' = Some [IntV 1, IntV 2, IntV 3]"
    "col df_glasses ''glass_name''
        = Some [StrV ''cocktail glass'', StrV ''copper mug'', StrV ''highball glass'']"
    unfolding names s c by (simp_all add: upto_rec1)
  with g(1) l example_catalog_drinks show ?thesis
    by blast
qed

section \<open>The inventory builder\<close>

lemma index_of_append:
  "index_of c (xs @ ys) =
     (case index_of c xs of Some i \<Rightarrow> Some i
      | None \<Rightarrow> map_option (\<lambda>j. length xs + j) (index_of c ys))"
proof (cases "index_of c ys")
  case None
  then show ?thesis
    by (induction xs) (auto split: option.splits)
next
  case (Some j)
  then show ?thesis
    by (induction xs) (auto split: option.splits)
qed

lemma index_of_rename:
  "c \<noteq> old \<Longrightarrow> c \<noteq> new \<Longrightarrow> index_of c (map (\<lambda>x. if x = old then new else x) cs) = index_of c cs"
  by (induction cs) auto

lemma list_all2_map2_update:
  "list_all2 P xs ys \<Longrightarrow> list_all2 (\<lambda>x z. \<exists>y. P x y \<and> z = g x y) xs (map2 g xs ys)"
  by (induction xs ys rule: list_all2_induct) auto

lemma apply_col_Inr:
  assumes "apply_col c f df = Inr df'"
  shows "\<exists>i. index_of c (columns df) = Some i \<and> columns df' = columns df \<and> index df' = index df \<and>
     list_all2 (\<lambda>r r'. \<exists>v. f (r ! i) = Inr v \<and> r' = r[i := v]) (data df) (data df')"
proof -
  from assms obtain i vs where i: "index_of c (columns df) = Some i"
    and vs: "mapM (\<lambda>r. f (r ! i)) (data df) = Inr vs"
    and df': "df' = df\<lparr>data := map2 (\<lambda>r v. r[i := v]) (data df) vs\<rparr>"
    by (auto simp: apply_col_def then_do_Inr split: option.splits)
  from vs have "list_all2 (\<lambda>r v. f (r ! i) = Inr v) (data df) vs"
    by (simp add: mapM_Inr)
  then have "list_all2 (\<lambda>r r'. \<exists>v. f (r ! i) = Inr v \<and> r' = r[i := v]) (data df)
      (map2 (\<lambda>r v. r[i := v]) (data df) vs)"
    by (rule list_all2_map2_update)
  with i df' show ?thesis
    by simp
qed

lemma apply_col_Inl:
  assumes "apply_col c f df = Inl e"
  shows "(e = KeyError \<and> c \<notin> set (columns df)) \<or>
     (\<exists>i. index_of c (columns df) = Some i \<and> (\<exists>r\<in>set (data df). f (r ! i) = Inl e))"
proof (cases "index_of c (columns df)")
  case None
  with assms show ?thesis
    by (simp add: apply_col_def index_of_None)
next
  case (Some i)
  with assms have "mapM (\<lambda>r. f (r ! i)) (data df) = Inl e"
    by (simp add: apply_col_def then_do_Inl)
  from mapM_Inl [OF this] Some show ?thesis
    by simp
qed

lemma apply_col_total:
  assumes "index_of c (columns df) = Some i" "\<And>r. r \<in> set (data df) \<Longrightarrow> \<exists>v. f (r ! i) = Inr v"
  shows "\<exists>df'. apply_col c f df = Inr df'"
proof -
  from mapM_total [of "data df" "\<lambda>r. f (r ! i)"] assms(2)
  obtain vs where "mapM (\<lambda>r. f (r ! i)) (data df) = Inr vs"
    by auto
  with assms(1) show ?thesis
    by (simp add: apply_col_def)
qed

lemma replace_same_or_longer:
  "old \<noteq> [] \<Longrightarrow> replace old new s = s \<or> length new \<le> length (replace old new s)"
  by (induction old new s rule: replace.induct) auto

lemma replace_whole: "old \<noteq> [] \<Longrightarrow> replace old new old = new"
  by (cases old) auto

lemma replace_removes_old:
  assumes "old \<noteq> []" "length old < length new"
  shows "replace old new s \<noteq> old"
proof
  assume eq: "replace old new s = old"
  from replace_same_or_longer [OF assms(1), of new s] show False
  proof
    assume "replace old new s = s"
    with eq have "s = old" by simp
    with eq replace_whole [OF assms(1), of new] assms(2) show False
      by auto
  next
    assume "length new \<le> length (replace old new s)"
    with eq assms(2) show False by simp
  qed
qed

lemma fix_glass_type_Inr:
  "fix_glass_type x = Inr v \<longleftrightarrow> (\<exists>s. x = StrV s \<and> v = StrV (replace ''coper mug'' ''copper mug'' s))"
  by (cases x) (auto simp: fix_glass_type_def)


lemma build_inventory_rows:
  assumes csv: "inventory_csv raw_csv" and bars: "bars_table df_bars"
    and gl: "glasses_table df_glasses"
    and ok: "build_inventory_dataframe raw_csv df_bars df_glasses = Inr df_inventory"
  shows "\<exists>ig ib rows2 u1 u2.
     index_of ''glass_type'' (columns raw_csv) = Some ig \<and>
     index_of ''bar'' (columns raw_csv) = Some ib \<and>
     list_all2 (\<lambda>r l. length l = length r \<and>
        (\<exists>s. r ! ig = StrV s \<and> l ! ig = StrV (replace ''coper mug'' ''copper mug'' s)))
        (data raw_csv) rows2 \<and>
     columns df_inventory = ''inventory_id'' #
        map (\<lambda>c. if c = ''stock'' then ''number_in_stock'' else c)
          (columns raw_csv @ [''bar_id'', ''location'', ''glass_id'', ''glass_name'']) \<and>
     map tl (data df_inventory) =
       concat (map (join_row ig (right_part False 1 u2 (data df_glasses)) 2)
         (concat (map (join_row ib (right_part False 1 u1 (data df_bars)) 2) rows2))) \<and>
     (\<forall>out\<in>set (data df_inventory). out \<noteq> [])"
proof -
  from ok obtain df1 df2 df3 df4 where
    s1: "apply_col ''stock'' parse_stock raw_csv = Inr df1" and
    s2: "apply_col ''glass_type'' fix_glass_type df1 = Inr df2" and
    m1: "merge_left df2 df_bars ''bar'' ''location'' = Inr df3" and
    m2: "merge_left df3 df_glasses ''glass_type'' ''glass_name'' = Inr df4" and
    o: "create_index_value (rename ''stock'' ''number_in_stock'' df4) ''inventory_id''
          = Inr df_inventory"
    by (auto simp: build_inventory_dataframe_def then_do_Inr)
  from csv have wf_raw: "\<forall>r\<in>set (data raw_csv). length r = length (columns raw_csv)"
    and dist: "distinct (columns raw_csv)"
    and mem: "''glass_type'' \<in> set (columns raw_csv)" "''stock'' \<in> set (columns raw_csv)"
      "''bar'' \<in> set (columns raw_csv)"
    and fresh: "''bar_id'' \<notin> set (columns raw_csv)" "''location'' \<notin> set (columns raw_csv)"
      "''glass_id'' \<notin> set (columns raw_csv)" "''glass_name'' \<notin> set (columns raw_csv)"
      "''inventory_id'' \<notin> set (columns raw_csv)"
    by (auto simp: inventory_csv_def wf_def list_all_iff)
  from mem obtain ig "is" ib where
    ig: "index_of ''glass_type'' (columns raw_csv) = Some ig" and
    "is": "index_of ''stock'' (columns raw_csv) = Some is" and
    ib: "index_of ''bar'' (columns raw_csv) = Some ib"
    using index_of_mem by metis
  from index_of_Some [OF ig] index_of_Some [OF "is"] have
    ig_lt: "ig < length (columns raw_csv)" and neq: "ig \<noteq> is"
    by auto
  from apply_col_Inr [OF s1] "is" have
    c1: "columns df1 = columns raw_csv" and
    r1: "list_all2 (\<lambda>r r'. \<exists>v. parse_stock (r ! is) = Inr v \<and> r' = r[is := v])
           (data raw_csv) (data df1)"
    by auto
  from apply_col_Inr [OF s2] ig c1 have
    c2: "columns df2 = columns raw_csv" and
    r2: "list_all2 (\<lambda>r r'. \<exists>v. fix_glass_type (r ! ig) = Inr v \<and> r' = r[ig := v])
           (data df1) (data df2)"
    by auto
  have rows2: "list_all2 (\<lambda>r l. length l = length r \<and>
        (\<exists>s. r ! ig = StrV s \<and> l ! ig = StrV (replace ''coper mug'' ''copper mug'' s)))
        (data raw_csv) (data df2)"
  proof (rule list_all2_all_nthI)
    show "length (data raw_csv) = length (data df2)"
      using r1 r2 by (simp add: list_all2_lengthD)
  next
    fix n assume n: "n < length (data raw_csv)"
    let ?r = "data raw_csv ! n"
    from n wf_raw ig_lt have len: "ig < length ?r"
      by simp
    from n r1 obtain v1 where v1: "data df1 ! n = ?r[is := v1]"
      by (auto simp: list_all2_conv_all_nth)
    from n r1 r2 obtain v2 where v2: "fix_glass_type (data df1 ! n ! ig) = Inr v2"
      "data df2 ! n = (data df1 ! n)[ig := v2]"
      by (auto simp: list_all2_conv_all_nth)
    from v1 neq have "data df1 ! n ! ig = ?r ! ig"
      by simp
    with v2(1) obtain s where "?r ! ig = StrV s" "v2 = StrV (replace ''coper mug'' ''copper mug'' s)"
      by (auto simp: fix_glass_type_Inr)
    with v1 v2(2) len show "length (data df2 ! n) = length ?r \<and>
        (\<exists>s. ?r ! ig = StrV s \<and> data df2 ! n ! ig = StrV (replace ''coper mug'' ''copper mug'' s))"
      by simp
  qed
  from bars have bc: "columns df_bars = [''bar_id'', ''location'']"
    by (simp add: bars_table_def)
  from gl have gc: "columns df_glasses = [''glass_id'', ''glass_name'']"
    by (simp add: glasses_table_def)
  from merge_left_Inr [OF m1] obtain i j u1 where
    ij: "index_of ''bar'' (columns df2) = Some i" "index_of ''location'' (columns df_bars) = Some j"
    and d3: "data df3 = concat (map (join_row i (right_part False j u1 (data df_bars))
          (length (drop_key False j (columns df_bars)))) (data df2))"
    and cc3: "columns df3 = add_suffix ''_x'' (drop_key False j (columns df_bars)) (columns df2)
          @ add_suffix ''_y'' (columns df2) (drop_key False j (columns df_bars))"
    by auto
  from ij ib have "i = ib" "j = 1"
    by (simp_all add: c2 bc)
  with d3 have d3': "data df3 = concat (map (join_row ib (right_part False 1 u1 (data df_bars)) 2)
      (data df2))"
    by (simp add: bc drop_key_def numeral_2_eq_2)
  have c3: "columns df3 = columns raw_csv @ [''bar_id'', ''location'']"
    unfolding cc3 c2 bc drop_key_def using fresh
    by (simp add: add_suffix_disjoint)
  from merge_left_Inr [OF m2] obtain i' j' u2 where
    ij': "index_of ''glass_type'' (columns df3) = Some i'"
      "index_of ''glass_name'' (columns df_glasses) = Some j'"
    and d4: "data df4 = concat (map (join_row i' (right_part False j' u2 (data df_glasses))
          (length (drop_key False j' (columns df_glasses)))) (data df3))"
    and cc4: "columns df4 = add_suffix ''_x'' (drop_key False j' (columns df_glasses)) (columns df3)
          @ add_suffix ''_y'' (columns df3) (drop_key False j' (columns df_glasses))"
    by auto
  from ij' ig have "i' = ig" "j' = 1"
    by (simp_all add: c3 gc index_of_append)
  with d4 have d4': "data df4 = concat (map (join_row ig (right_part False 1 u2 (data df_glasses)) 2)
      (data df3))"
    by (simp add: gc drop_key_def numeral_2_eq_2)
  have c4: "columns df4 = columns raw_csv @ [''bar_id'', ''location'', ''glass_id'', ''glass_name'']"
    unfolding cc4 c3 gc drop_key_def using fresh
    by (simp add: add_suffix_disjoint)
  from create_index_value_data [OF o] have
    "columns df_inventory = ''inventory_id'' #
        map (\<lambda>c. if c = ''stock'' then ''number_in_stock'' else c)
          (columns raw_csv @ [''bar_id'', ''location'', ''glass_id'', ''glass_name''])"
    "map tl (data df_inventory) =
       concat (map (join_row ig (right_part False 1 u2 (data df_glasses)) 2)
         (concat (map (join_row ib (right_part False 1 u1 (data df_bars)) 2) (data df2))))"
    by (simp_all add: rename_def c4 d4' d3')
  moreover have "\<forall>out\<in>set (data df_inventory). out \<noteq> []"
    using create_index_value_nonempty [OF o] by blast
  ultimately show ?thesis
    using ig ib rows2 by blast
qed


lemma glasses_table_names:
  assumes "glasses_table df"
  shows "cell (columns df) g ''glass_name'' = Some (g ! 1)"
    and "\<forall>g\<in>set (data df). length g = 2 \<and> \<not> is_int (g ! 1)"
  using assms
  by (auto simp: glasses_table_def cell_def wf_def list_all_iff is_str_def is_int_def
      split: val.splits)

lemma bars_table_rows:
  assumes "bars_table df"
  shows "\<forall>b\<in>set (data df). length b = 2"
  using assms by (auto simp: bars_table_def wf_def list_all_iff)

text \<open>
  C9. When the inventory builder returns, the glass names were rewritten before the
  join on them: \<^verbatim>\<open>"coper mug"\<close> becomes \<^verbatim>\<open>"copper mug"\<close>; every row of the file is in
  the inventory table with its rewritten glass type; and in every row of the
  inventory table the glass type is a rewritten name, never \<^verbatim>\<open>"coper mug"\<close>, and the
  glass name that the join copied from the glasses table is that rewritten name when
  the glasses table has it, and missing otherwise.
\<close>

theorem coper_mug_rewritten_before_join:
  assumes csv: "inventory_csv raw_csv" and bars: "bars_table df_bars"
    and gl: "glasses_table df_glasses"
    and ok: "build_inventory_dataframe raw_csv df_bars df_glasses = Inr df_inventory"
  shows "replace ''coper mug'' ''copper mug'' ''coper mug'' = ''copper mug'' \<and>
    (\<forall>row\<in>set (data raw_csv). \<forall>s. cell (columns raw_csv) row ''glass_type'' = Some (StrV s) \<longrightarrow>
       (\<exists>out\<in>set (data df_inventory). cell (columns df_inventory) out ''glass_type''
          = Some (StrV (replace ''coper mug'' ''copper mug'' s)))) \<and>
    (\<forall>out\<in>set (data df_inventory). \<exists>s t.
       t = replace ''coper mug'' ''copper mug'' s \<and> t \<noteq> ''coper mug'' \<and>
       cell (columns df_inventory) out ''glass_type'' = Some (StrV t) \<and>
       cell (columns df_inventory) out ''glass_name'' =
         Some (if \<exists>g\<in>set (data df_glasses). cell (columns df_glasses) g ''glass_name'' = Some (StrV t)
               then StrV t else NaN))"
proof -
  from build_inventory_rows [OF assms] obtain ig ib rows2 u1 u2 where
    ig: "index_of ''glass_type'' (columns raw_csv) = Some ig" and
    rows2: "list_all2 (\<lambda>r l. length l = length r \<and>
        (\<exists>s. r ! ig = StrV s \<and> l ! ig = StrV (replace ''coper mug'' ''copper mug'' s)))
        (data raw_csv) rows2" and
    cols: "columns df_inventory = ''inventory_id'' #
        map (\<lambda>c. if c = ''stock'' then ''number_in_stock'' else c)
          (columns raw_csv @ [''bar_id'', ''location'', ''glass_id'', ''glass_name''])" and
    rows: "map tl (data df_inventory) =
       concat (map (join_row ig (right_part False 1 u2 (data df_glasses)) 2)
         (concat (map (join_row ib (right_part False 1 u1 (data df_bars)) 2) rows2)))" and
    ne: "\<forall>out\<in>set (data df_inventory). out \<noteq> []"
    by blast
  define n where "n = length (columns raw_csv)"
  define rr1 where "rr1 = right_part False 1 u1 (data df_bars)"
  define rr2 where "rr2 = right_part False 1 u2 (data df_glasses)"
  define rows3 where "rows3 = concat (map (join_row ib rr1 2) rows2)"
  have rows': "map tl (data df_inventory) = concat (map (join_row ig rr2 2) rows3)"
    unfolding rows3_def rr1_def rr2_def by (rule rows)
  from csv have wf_raw: "\<forall>r\<in>set (data raw_csv). length r = n"
    and fresh: "''glass_name'' \<notin> set (columns raw_csv)"
    by (auto simp: inventory_csv_def wf_def list_all_iff n_def)
  from index_of_Some [OF ig] have ig_lt: "ig < n"
    by (simp add: n_def)
  have pos_type: "index_of ''glass_type'' (columns df_inventory) = Some (Suc ig)"
    by (simp add: cols index_of_rename index_of_append ig del: map_append)
  have "index_of ''glass_name'' (columns raw_csv) = None"
    using fresh by (simp add: index_of_None)
  then have pos_name: "index_of ''glass_name'' (columns df_inventory) = Some (Suc (n + 3))"
    by (simp add: cols index_of_rename index_of_append n_def del: map_append)
  have l_props: "length l = n \<and> (\<exists>s. l ! ig = StrV (replace ''coper mug'' ''copper mug'' s))"
    if "l \<in> set rows2" for l
  proof -
    from that obtain k where "k < length rows2" "rows2 ! k = l"
      by (auto simp: in_set_conv_nth)
    with rows2 wf_raw show ?thesis
      by (fastforce simp: list_all2_conv_all_nth)
  qed
  have p_len: "length p = 2" if "l @ p \<in> set (join_row ib rr1 2 l)" for l p
  proof -
    from join_row_elem [OF that] have "p = replicate 2 NaN \<or> (l ! ib, p) \<in> set rr1"
      by auto
    then show ?thesis
    proof
      assume "p = replicate 2 NaN" then show ?thesis by simp
    next
      assume "(l ! ib, p) \<in> set rr1"
      from right_part_elem [OF this [unfolded rr1_def]] bars_table_rows [OF bars]
      show ?thesis by (auto simp: drop_key_def)
    qed
  qed
  have q_props: "length q = 2 \<and>
      q ! 1 = (if \<exists>g\<in>set (data df_glasses). g ! 1 = l3 ! ig then l3 ! ig else NaN)"
    if "l3 @ q \<in> set (join_row ig rr2 2 l3)" for l3 q
  proof -
    have keys: "fst ` set rr2 = (\<lambda>g. g ! 1) ` set (data df_glasses)"
      using right_part_keys [of False 1 u2 "data df_glasses"]
      by (metis rr2_def list.set_map)
    from join_row_elem [OF that]
    have "(q = replicate 2 NaN \<and> l3 ! ig \<notin> fst ` set rr2) \<or> (l3 ! ig, q) \<in> set rr2"
      by auto
    then show ?thesis
    proof
      assume "q = replicate 2 NaN \<and> l3 ! ig \<notin> fst ` set rr2"
      with keys have "\<not> (\<exists>g\<in>set (data df_glasses). g ! 1 = l3 ! ig)" "q = [NaN, NaN]"
        by (auto simp: numeral_2_eq_2 image_iff)
      then show ?thesis
        by simp
    next
      assume "(l3 ! ig, q) \<in> set rr2"
      from right_part_elem [OF this [unfolded rr2_def]] obtain g where
        g: "g \<in> set (data df_glasses)" "l3 ! ig = g ! 1" "length q = length g"
        "\<forall>c<length q. \<not> is_int (g ! c) \<longrightarrow> q ! c = g ! c"
        by (auto simp: drop_key_def)
      with glasses_table_names(2) [OF gl] have "length q = 2" "q ! 1 = g ! 1"
        by auto
      with g(1,2) show ?thesis
        by auto
    qed
  qed
  have cells: "cell (columns df_inventory) (h # l @ p @ q) ''glass_type'' = Some (l ! ig) \<and>
      cell (columns df_inventory) (h # l @ p @ q) ''glass_name'' = Some (q ! 1)"
    if "length l = n" "length p = 2" for h l p q
    using that ig_lt by (simp add: cell_def pos_type pos_name nth_append)
  have third: "\<exists>s t. t = replace ''coper mug'' ''copper mug'' s \<and> t \<noteq> ''coper mug'' \<and>
       cell (columns df_inventory) out ''glass_type'' = Some (StrV t) \<and>
       cell (columns df_inventory) out ''glass_name'' =
         Some (if \<exists>g\<in>set (data df_glasses). cell (columns df_glasses) g ''glass_name'' = Some (StrV t)
               then StrV t else NaN)"
    if out: "out \<in> set (data df_inventory)" for out
  proof -
    from out ne obtain h x where hx: "out = h # x"
      by (auto simp: neq_Nil_conv)
    with out have "x \<in> set (map tl (data df_inventory))"
      by force
    then obtain l3 where l3: "l3 \<in> set rows3" "x \<in> set (join_row ig rr2 2 l3)"
      unfolding rows' by auto
    then obtain l where l: "l \<in> set rows2" "l3 \<in> set (join_row ib rr1 2 l)"
      unfolding rows3_def by auto
    from join_row_elem [OF l(2)] obtain p where p: "l3 = l @ p"
      by auto
    from join_row_elem [OF l3(2)] obtain q where q: "x = l3 @ q"
      by auto
    from l_props [OF l(1)] obtain s where
      len: "length l = n" and s: "l ! ig = StrV (replace ''coper mug'' ''copper mug'' s)"
      by blast
    from p_len [of l p] l(2) p have pl: "length p = 2"
      by simp
    from q_props [of l3 q] l3(2) q have
      ql: "q ! 1 = (if \<exists>g\<in>set (data df_glasses). g ! 1 = l3 ! ig then l3 ! ig else NaN)"
      by simp
    from p len ig_lt have key: "l3 ! ig = l ! ig"
      by (simp add: nth_append)
    have "replace ''coper mug'' ''copper mug'' s \<noteq> ''coper mug''"
      by (rule replace_removes_old) simp_all
    moreover from cells [OF len pl, of h q] hx q p
    have "cell (columns df_inventory) out ''glass_type'' = Some (l ! ig)"
      "cell (columns df_inventory) out ''glass_name'' = Some (q ! 1)"
      by simp_all
    ultimately show ?thesis
      using s ql key by (auto simp: glasses_table_names(1) [OF gl])
  qed
  have second: "\<exists>out\<in>set (data df_inventory). cell (columns df_inventory) out ''glass_type''
          = Some (StrV (replace ''coper mug'' ''copper mug'' s))"
    if row: "row \<in> set (data raw_csv)"
      and c: "cell (columns raw_csv) row ''glass_type'' = Some (StrV s)" for row s
  proof -
    from c ig have rs: "row ! ig = StrV s"
      by (simp add: cell_def)
    from row obtain k where k: "k < length (data raw_csv)" "data raw_csv ! k = row"
      by (auto simp: in_set_conv_nth)
    with rows2 rs have l: "rows2 ! k \<in> set rows2" "length (rows2 ! k) = length row"
      "rows2 ! k ! ig = StrV (replace ''coper mug'' ''copper mug'' s)"
      by (auto simp: list_all2_conv_all_nth)
    define l where "l = rows2 ! k"
    from row wf_raw l have len: "l \<in> set rows2" "length l = n"
      "l ! ig = StrV (replace ''coper mug'' ''copper mug'' s)"
      by (simp_all add: l_def)
    obtain l3 where l3: "l3 \<in> set (join_row ib rr1 2 l)"
      using join_row_nonempty [of ib rr1 2 l] by (meson last_in_set)
    from join_row_elem [OF l3] obtain p where p: "l3 = l @ p"
      by auto
    obtain x where x: "x \<in> set (join_row ig rr2 2 l3)"
      using join_row_nonempty [of ig rr2 2 l3] by (meson last_in_set)
    from join_row_elem [OF x] obtain q where q: "x = l3 @ q"
      by auto
    from l3 len(1) have "l3 \<in> set rows3"
      unfolding rows3_def by auto
    with x have "x \<in> set (map tl (data df_inventory))"
      unfolding rows' by auto
    then obtain out where out: "out \<in> set (data df_inventory)" "tl out = x"
      by auto
    with ne obtain h where hx: "out = h # x"
      by (fastforce simp: neq_Nil_conv)
    from p_len [of l p] l3 p have pl: "length p = 2"
      by simp
    from cells [OF len(2) pl, of h q] hx q p len(3)
    have "cell (columns df_inventory) out ''glass_type''
          = Some (StrV (replace ''coper mug'' ''copper mug'' s))"
      by simp
    with out(1) show ?thesis
      by blast
  qed
  have "replace ''coper mug'' ''copper mug'' ''coper mug'' = ''copper mug''"
    by simp
  with second third show ?thesis
    by blast
qed


lemma example_inventory_tables:
  "inventory_csv example_csv" "glasses_table example_glass_table"
  by (simp_all add: inventory_csv_def glasses_table_def wf_def DataFrame_def example_csv_def
      example_glass_table_def is_str_def)

lemma example_inventory_built:
  "build_inventory_dataframe example_csv build_bars_dataframe example_glass_table
     = Inr example_inventory"
  by code_simp

theorem coper_mug_rewritten_before_join_witness:
  "inventory_csv example_csv \<and> bars_table build_bars_dataframe \<and>
   glasses_table example_glass_table \<and>
   build_inventory_dataframe example_csv build_bars_dataframe example_glass_table
     = Inr example_inventory \<and>
   cell (columns example_csv) (data example_csv ! 0) ''glass_type'' = Some (StrV ''coper mug'') \<and>
   (\<exists>out\<in>set (data example_inventory).
      cell (columns example_inventory) out ''glass_type'' = Some (StrV ''copper mug''))"
proof -
  have row: "data example_csv ! 0 \<in> set (data example_csv)"
    "cell (columns example_csv) (data example_csv ! 0) ''glass_type'' = Some (StrV ''coper mug'')"
    by (simp_all add: example_csv_def DataFrame_def cell_def)
  note inst = coper_mug_rewritten_before_join [OF example_inventory_tables(1) example_tables(6)
      example_inventory_tables(2) example_inventory_built]
  from inst row have "\<exists>out\<in>set (data example_inventory).
      cell (columns example_inventory) out ''glass_type''
        = Some (StrV (replace ''coper mug'' ''copper mug'' ''coper mug''))"
    by blast
  then have "\<exists>out\<in>set (data example_inventory).
      cell (columns example_inventory) out ''glass_type'' = Some (StrV ''copper mug'')"
    by simp
  with row(2) example_inventory_tables example_tables(6) example_inventory_built show ?thesis
    by blast
qed

section \<open>The Schema Enforcer\<close>

lemma mapM_map: "mapM f (map g xs) = mapM (\<lambda>x. f (g x)) xs"
  by (induction xs) (simp_all split: sum.splits)

lemma map2_update_same:
  "length rows = length vs \<Longrightarrow> \<forall>r\<in>set rows. i < length r \<Longrightarrow>
     map (\<lambda>r. r ! i) (map2 (\<lambda>r v. r[i := v]) rows vs) = vs"
  by (induction rows vs rule: list_induct2) simp_all

lemma map2_update_other:
  "length rows = length vs \<Longrightarrow> j \<noteq> i \<Longrightarrow>
     map (\<lambda>r. r ! j) (map2 (\<lambda>r v. r[i := v]) rows vs) = map (\<lambda>r. r ! j) rows"
  by (induction rows vs rule: list_induct2) simp_all

lemma apply_col_cols:
  assumes ok: "apply_col c f df = Inr df'" and wf: "wf df"
  shows "wf df'" and "columns df' = columns df"
    and "\<exists>vs vs'. col df c = Some vs \<and> mapM f vs = Inr vs' \<and> col df' c = Some vs'"
    and "\<forall>c'. c' \<noteq> c \<longrightarrow> col df' c' = col df c'"
proof -
  from ok obtain i vs' where i: "index_of c (columns df) = Some i"
    and vs': "mapM (\<lambda>r. f (r ! i)) (data df) = Inr vs'"
    and df': "df' = df\<lparr>data := map2 (\<lambda>r v. r[i := v]) (data df) vs'\<rparr>"
    by (auto simp: apply_col_def then_do_Inr split: option.splits)
  from vs' have len: "length (data df) = length vs'"
    by (simp add: mapM_length)
  from wf index_of_Some [OF i] have lt: "\<forall>r\<in>set (data df). i < length r"
    by (auto simp: wf_def list_all_iff)
  show "columns df' = columns df"
    by (simp add: df')
  from wf len show "wf df'"
    by (auto simp: df' wf_def list_all_iff dest!: set_zip_leftD)
  have "col df c = Some (map (\<lambda>r. r ! i) (data df))"
    by (simp add: col_def i)
  moreover have "mapM f (map (\<lambda>r. r ! i) (data df)) = Inr vs'"
    by (simp add: mapM_map vs')
  moreover have "col df' c = Some vs'"
    using map2_update_same [OF len lt] by (simp add: col_def df' i)
  ultimately show "\<exists>vs vs'. col df c = Some vs \<and> mapM f vs = Inr vs' \<and> col df' c = Some vs'"
    by blast
  show "\<forall>c'. c' \<noteq> c \<longrightarrow> col df' c' = col df c'"
  proof (intro allI impI)
    fix c' assume ne: "c' \<noteq> c"
    show "col df' c' = col df c'"
    proof (cases "index_of c' (columns df)")
      case None
      then show ?thesis by (simp add: col_def df')
    next
      case (Some j)
      with index_of_Some [OF this] index_of_Some [OF i] ne have "j \<noteq> i"
        by auto
      with Some map2_update_other [OF len, of j i] show ?thesis
        by (simp add: col_def df')
    qed
  qed
qed

lemma apply_col_fails:
  assumes "apply_col c f df = Inl e" "c \<in> set (columns df)"
  shows "\<exists>vs. col df c = Some vs \<and> (\<exists>v\<in>set vs. f v = Inl e)"
proof -
  from apply_col_Inl [OF assms(1)] assms(2) obtain i r where
    "index_of c (columns df) = Some i" "r \<in> set (data df)" "f (r ! i) = Inl e"
    by auto
  then show ?thesis
    by (auto simp: col_def intro!: bexI [of _ "r ! i"])
qed

lemma project_cols:
  assumes ok: "project cs df = Inr p" and wf: "wf df"
  shows "wf p" and "columns p = cs" and "\<forall>c\<in>set cs. col p c = col df c"
proof -
  from ok obtain "is" where
    pos: "list_all2 (\<lambda>c i. index_of c (columns df) = Some i) cs is" and
    p: "p = df\<lparr>columns := cs, data := map (\<lambda>r. map ((!) r) is) (data df)\<rparr>"
    by (auto simp: project_Inr)
  from pos have len: "length is = length cs"
    by (simp add: list_all2_lengthD)
  show "columns p = cs"
    by (simp add: p)
  from wf len show "wf p"
    by (simp add: p wf_def list_all_iff)
  show "\<forall>c\<in>set cs. col p c = col df c"
  proof
    fix c assume "c \<in> set cs"
    then obtain k where k: "index_of c cs = Some k"
      using index_of_mem by fastforce
    from index_of_Some [OF k] have kl: "k < length cs" "cs ! k = c"
      by auto
    with pos have i: "index_of c (columns df) = Some (is ! k)"
      by (auto simp: list_all2_conv_all_nth)
    from kl len have "map (\<lambda>r. map ((!) r) is ! k) (data df) = map (\<lambda>r. r ! (is ! k)) (data df)"
      by simp
    then show "col p c = col df c"
      by (simp add: col_def p k i comp_def)
  qed
qed

lemma int64_cases: "int64 n = Inr v \<Longrightarrow> is_int v" "int64 n = Inl e \<Longrightarrow> e = OverflowError"
  by (auto simp: int64_def is_int_def split: if_splits)

lemma astype_val_Inr: "astype_val fl t v = Inr w \<Longrightarrow> has_dtype t w"
  by (cases t; cases v)
    (auto simp: has_dtype_def is_int_def is_str_def is_float_def int64_def
      split: if_splits option.splits)

lemma astype_val_Inl: "astype_val fl t v = Inl e \<Longrightarrow> coercion_error e"
  by (cases t; cases v)
    (auto simp: coercion_error_def int64_def split: if_splits option.splits)


lemma clean_loop_Inr:
  assumes "foldM (\<lambda>df column. case map_of dts column of
                None \<Rightarrow> Inl KeyError
              | Some t \<Rightarrow> apply_col column (astype_val fl t) df) df cs = Inr df'"
    and "wf df" and "distinct cs"
  shows "wf df' \<and> columns df' = columns df \<and>
     (\<forall>c\<in>set cs. \<exists>t vs vs'. map_of dts c = Some t \<and> col df c = Some vs \<and>
        mapM (astype_val fl t) vs = Inr vs' \<and> col df' c = Some vs') \<and>
     (\<forall>c. c \<notin> set cs \<longrightarrow> col df' c = col df c)"
  using assms
proof (induction cs arbitrary: df)
  case Nil
  then show ?case by simp
next
  case (Cons c cs)
  let ?step = "\<lambda>df column. case map_of dts column of
                None \<Rightarrow> Inl KeyError
              | Some t \<Rightarrow> apply_col column (astype_val fl t) df"
  from Cons.prems(1) obtain d1 where d1: "?step df c = Inr d1" and rest: "foldM ?step d1 cs = Inr df'"
    by (auto split: sum.splits)
  from d1 obtain t where t: "map_of dts c = Some t" and a: "apply_col c (astype_val fl t) df = Inr d1"
    by (auto split: option.splits)
  note ac = apply_col_cols [OF a Cons.prems(2)]
  from Cons.prems(3) have dist: "distinct cs" and notin: "c \<notin> set cs"
    by simp_all
  from Cons.IH [OF rest ac(1) dist] have
    ih: "wf df'" "columns df' = columns d1"
      "\<forall>c\<in>set cs. \<exists>t vs vs'. map_of dts c = Some t \<and> col d1 c = Some vs \<and>
        mapM (astype_val fl t) vs = Inr vs' \<and> col df' c = Some vs'"
      "\<forall>c. c \<notin> set cs \<longrightarrow> col df' c = col d1 c"
    by blast+
  from ac(3) obtain vs vs' where
    head: "col df c = Some vs" "mapM (astype_val fl t) vs = Inr vs'" "col d1 c = Some vs'"
    by blast
  from ih(4) notin head(3) have "col df' c = Some vs'"
    by simp
  with t head have here: "\<exists>t vs vs'. map_of dts c = Some t \<and> col df c = Some vs \<and>
        mapM (astype_val fl t) vs = Inr vs' \<and> col df' c = Some vs'"
    by blast
  have there: "\<exists>t vs vs'. map_of dts c' = Some t \<and> col df c' = Some vs \<and>
        mapM (astype_val fl t) vs = Inr vs' \<and> col df' c' = Some vs'" if "c' \<in> set cs" for c'
  proof -
    from that notin have "c' \<noteq> c" by auto
    with ac(4) have eq: "col d1 c' = col df c'" by simp
    from ih(3) that obtain t' ws ws' where w: "map_of dts c' = Some t'" "col d1 c' = Some ws"
      "mapM (astype_val fl t') ws = Inr ws'" "col df' c' = Some ws'"
      by blast
    from w(2) eq have "col df c' = Some ws" by simp
    with w(1,3,4) show ?thesis by blast
  qed
  have other: "col df' c' = col df c'" if "c' \<notin> set (c # cs)" for c'
    using that ih(4) ac(4) by simp
  from ih(1,2) ac(2) here there other show ?case
    by auto
qed

lemma clean_loop_Inl:
  assumes "foldM (\<lambda>df column. case map_of dts column of
                None \<Rightarrow> Inl KeyError
              | Some t \<Rightarrow> apply_col column (astype_val fl t) df) df cs = Inl e"
    and "wf df" and "distinct cs" and "set cs \<subseteq> set (columns df)"
    and "\<forall>c\<in>set cs. \<exists>t. map_of dts c = Some t"
  shows "\<exists>c\<in>set cs. \<exists>t vs. map_of dts c = Some t \<and> col df c = Some vs \<and>
     (\<exists>v\<in>set vs. astype_val fl t v = Inl e)"
  using assms
proof (induction cs arbitrary: df)
  case Nil
  then show ?case by simp
next
  case (Cons c cs)
  let ?step = "\<lambda>df column. case map_of dts column of
                None \<Rightarrow> Inl KeyError
              | Some t \<Rightarrow> apply_col column (astype_val fl t) df"
  from Cons.prems(5) obtain t where t: "map_of dts c = Some t"
    by auto
  from Cons.prems(4) have cin: "c \<in> set (columns df)"
    by simp
  show ?case
  proof (cases "apply_col c (astype_val fl t) df")
    case (Inl e')
    with Cons.prems(1) t have "e' = e"
      by simp
    with Inl apply_col_fails [of c "astype_val fl t" df e] cin t show ?thesis
      by auto
  next
    case (Inr d1)
    with Cons.prems(1) t have rest: "foldM ?step d1 cs = Inl e"
      by simp
    note ac = apply_col_cols [OF Inr Cons.prems(2)]
    from Cons.prems(3) have dist: "distinct cs" and notin: "c \<notin> set cs"
      by simp_all
    from Cons.prems(4,5) ac(2) have "set cs \<subseteq> set (columns d1)"
      "\<forall>c\<in>set cs. \<exists>t. map_of dts c = Some t"
      by simp_all
    from Cons.IH [OF rest ac(1) dist this] obtain c' t' vs where
      c': "c' \<in> set cs" "map_of dts c' = Some t'" "col d1 c' = Some vs"
      "\<exists>v\<in>set vs. astype_val fl t' v = Inl e"
      by blast
    from c'(1) notin have "c' \<noteq> c" by auto
    with ac(4) c'(3) have "col df c' = Some vs" by simp
    with c' show ?thesis
      by auto
  qed
qed

lemma mapM_all_Inr: "mapM f xs = Inr ys \<Longrightarrow> x \<in> set xs \<Longrightarrow> \<exists>y. f x = Inr y"
  by (induction xs arbitrary: ys) (auto split: sum.splits)

lemma mapM_results: "mapM f xs = Inr ys \<Longrightarrow> y \<in> set ys \<Longrightarrow> \<exists>x\<in>set xs. f x = Inr y"
  by (induction xs arbitrary: ys) (auto split: sum.splits)

end
